theory Spec2Isabelle
  imports Complex_Main "HOL-Library.Signed_Division"
begin

section \<open>C values, faults and process outcomes\<close>

text \<open>
  The two programs of the repository, \<^verbatim>\<open>mpi_vector_add2.c\<close> (the distributed program) and
  \<^verbatim>\<open>vector_add2.c\<close> (the serial program), are embedded function by function.

  A C \<^verbatim>\<open>int\<close> is an \<^typ>\<open>int\<close>: every value comes from \<^verbatim>\<open>scanf("%d")\<close>, \<^verbatim>\<open>rand()\<close> and the
  process count, and the only arithmetic on it is \<^verbatim>\<open>n % comm_sz\<close>, \<^verbatim>\<open>n / comm_sz\<close>,
  \<^verbatim>\<open>rand() % randmax\<close>, \<^verbatim>\<open>n - 10\<close>, \<^verbatim>\<open>n - 1\<close> and \<^verbatim>\<open>i++\<close> below a bound, so the division
  operators are the places where C and HOL differ (truncation, division by zero) and they
  are written out.

  A C \<^verbatim>\<open>double\<close> is a value of an element type \<open>'d\<close>, the same throughout a run. The
  programs add and multiply doubles and convert \<^verbatim>\<open>int\<close> to \<^verbatim>\<open>double\<close>: the model uses \<open>0\<close>,
  \<open>+\<close> and \<open>*\<close> of the element type and takes the conversion as the argument
  \<open>to_double\<close>, with no law assumed of any of them, so that what is proved holds of
  rounding arithmetic as of any other. The reals with \<open>real_of_int\<close> are one such type:
  \<open>double\<close> below names them, for the statements about exact arithmetic and for examples.

  What the programs get from outside is an argument of the model: the integers that
  \<^verbatim>\<open>scanf\<close> stores (every \<^verbatim>\<open>scanf\<close> is taken to read one), the values of \<^verbatim>\<open>rand()\<close>, whether
  each \<^verbatim>\<open>malloc\<close> gives a block, and the elapsed time.
\<close>

type_synonym double = real

text \<open>Behaviour that C leaves undefined is a value of the model.\<close>

datatype fault = DivByZero | OutOfBounds | ReadUninit

text \<open>
  How a call ends at one process: it returns a value, the process leaves through
  \<^verbatim>\<open>exit(code)\<close>, it runs into undefined behaviour, or it waits in a collective operation
  that a departed peer will never enter.
\<close>

datatype 'a outcome = Returned 'a | Exited int | Undefined fault | Blocked

text \<open>
  Output is kept as the \<^verbatim>\<open>printf\<close> calls themselves: the channel, the format string and
  the arguments. Rendering \<^verbatim>\<open>%d\<close>, \<^verbatim>\<open>%s\<close> and \<^verbatim>\<open>%lf\<close> is the C library's business.
\<close>

datatype 'd arg = AInt int | ADouble 'd | AStr string

datatype 'd event = Stdout string "'d arg list" | Stderr string "'d arg list"

text \<open>What one process did: its output in order, and how it ended.\<close>

type_synonym ('d, 'a) run = "'d event list \<times> 'a outcome"

text \<open>A collective call seen over the whole communicator: one run per rank, in rank order.\<close>

type_synonym ('d, 'a) group = "('d, 'a) run list"

text \<open>C's \<^verbatim>\<open>a % b\<close> and \<^verbatim>\<open>a / b\<close> on \<^verbatim>\<open>int\<close>: truncating, undefined for \<open>b = 0\<close>.\<close>

definition c_mod :: "int \<Rightarrow> int \<Rightarrow> int option" where
  "c_mod a b = (if b = 0 then None else Some (a smod b))"

definition c_div :: "int \<Rightarrow> int \<Rightarrow> int option" where
  "c_div a b = (if b = 0 then None else Some (a sdiv b))"

text \<open>Reading \<^verbatim>\<open>a[i]\<close> and writing \<^verbatim>\<open>a[i] = v\<close> with a C \<^verbatim>\<open>int\<close> index: \<open>None\<close> outside the array.\<close>

definition rd :: "'a list \<Rightarrow> int \<Rightarrow> 'a option" where
  "rd a i = (if 0 \<le> i \<and> i < int (length a) then Some (a ! nat i) else None)"

definition wr :: "'a list \<Rightarrow> int \<Rightarrow> 'a \<Rightarrow> 'a list option" where
  "wr a i v = (if 0 \<le> i \<and> i < int (length a) then Some (a[nat i := v]) else None)"

section \<open>The collective operations of MPI that the program calls\<close>

text \<open>
  Each collective takes what every rank contributes, in rank order, and gives what is
  delivered. The root is rank 0 in every call of the program.
\<close>

text \<open>\<^verbatim>\<open>MPI_Allreduce(&local_ok, &ok, 1, MPI_INT, MPI_MIN, comm)\<close>: the value every rank receives.\<close>

definition MPI_Allreduce_MIN :: "int list \<Rightarrow> int" where
  "MPI_Allreduce_MIN local_oks = Min (set local_oks)"

text \<open>
  \<^verbatim>\<open>MPI_Scatter(a, local_n, MPI_DOUBLE, local_a, local_n, MPI_DOUBLE, 0, comm)\<close>: rank \<open>r\<close>
  receives \<^verbatim>\<open>a[r*local_n .. (r+1)*local_n - 1]\<close>. The count must not be negative and the
  send buffer must hold \<open>comm_sz * local_n\<close> elements; a shorter one is read past its end.
\<close>

definition MPI_Scatter :: "'a list \<Rightarrow> int \<Rightarrow> nat \<Rightarrow> 'a list list option" where
  "MPI_Scatter a local_n comm_sz =
     (if 0 \<le> local_n \<and> comm_sz * nat local_n \<le> length a
      then Some (map (\<lambda>r. take (nat local_n) (drop (r * nat local_n) a)) [0..<comm_sz])
      else None)"

text \<open>
  \<^verbatim>\<open>MPI_Gather(local_b, local_n, MPI_DOUBLE, b, local_n, MPI_DOUBLE, 0, comm)\<close>: the root
  stores the \<open>local_n\<close> elements of rank \<open>r\<close> at \<^verbatim>\<open>b[r*local_n ..]\<close>. Every rank must hold
  \<open>local_n\<close> elements. The receive buffer \<^verbatim>\<open>b\<close> has \<open>n\<close> cells, fresh from \<^verbatim>\<open>malloc\<close>: with
  \<open>comm_sz * local_n > n\<close> it overflows, with \<open>comm_sz * local_n < n\<close> its tail stays
  uninitialised and the caller, which always reads \<^verbatim>\<open>b[n-1]\<close>, reads an indeterminate
  value. The result is the buffer when it is exactly filled, and \<open>None\<close> otherwise.
\<close>

definition MPI_Gather :: "'a list list \<Rightarrow> int \<Rightarrow> int \<Rightarrow> 'a list option" where
  "MPI_Gather local_bs local_n n =
     (if 0 \<le> local_n \<and> list_all (\<lambda>local_b. nat local_n \<le> length local_b) local_bs
         \<and> int (length local_bs) * local_n = n
      then Some (concat (map (take (nat local_n)) local_bs))
      else None)"

text \<open>
  \<^verbatim>\<open>MPI_Reduce(&local_dot, result, 1, MPI_DOUBLE, MPI_SUM, 0, comm)\<close>: the value stored at
  the root. MPI leaves the order of combination open; the model combines in rank order.
\<close>

fun MPI_Reduce_SUM :: "'a::{zero,plus} list \<Rightarrow> 'a" where
  "MPI_Reduce_SUM [] = 0"
| "MPI_Reduce_SUM (v # vs) = foldl (+) v vs"

section \<open>Sequencing\<close>

text \<open>The value of a run that returned.\<close>

fun returned :: "('d, 'a) run \<Rightarrow> 'a option" where
  "returned (es, Returned v) = Some v"
| "returned (es, Exited c) = None"
| "returned (es, Undefined u) = None"
| "returned (es, Blocked) = None"

text \<open>
  A run that does not go on. A process that has left stays as it ended; one that returned
  while a peer did not goes on alone into the next collective operation and waits there.
\<close>

fun halt :: "('d, 'a) run \<Rightarrow> ('d, 'b) run" where
  "halt (es, Returned v) = (es, Blocked)"
| "halt (es, Exited c) = (es, Exited c)"
| "halt (es, Undefined u) = (es, Undefined u)"
| "halt (es, Blocked) = (es, Blocked)"

text \<open>Output that precedes a run.\<close>

definition emit :: "'d event list \<Rightarrow> ('d, 'a) run \<Rightarrow> ('d, 'a) run" where
  "emit es r = (es @ fst r, snd r)"

text \<open>One process: statement after statement.\<close>

definition bind_run :: "('d, 'a) run \<Rightarrow> ('a \<Rightarrow> ('d, 'b) run) \<Rightarrow> ('d, 'b) run" where
  "bind_run m f = (case returned m of Some v \<Rightarrow> emit (fst m) (f v) | None \<Rightarrow> halt m)"

text \<open>Every rank of the communicator runs the same code with its own \<^verbatim>\<open>my_rank\<close>.\<close>

definition each :: "nat \<Rightarrow> (nat \<Rightarrow> ('d, 'a) run) \<Rightarrow> ('d, 'a) group" where
  "each comm_sz body = map body [0..<comm_sz]"

text \<open>
  The group: the next call starts when every rank has returned from this one, and gets
  the values the ranks hold, in rank order.
\<close>

definition gbind :: "('d, 'a) group \<Rightarrow> ('a list \<Rightarrow> ('d, 'b) group) \<Rightarrow> ('d, 'b) group" where
  "gbind g f =
     (case those (map returned g) of
        Some vs \<Rightarrow> map (\<lambda>(es, r). emit es r) (zip (map fst g) (f vs))
      | None \<Rightarrow> map halt g)"

text \<open>
  The value all ranks agree on, as after \<^verbatim>\<open>MPI_Bcast\<close>. Arguments such as \<^verbatim>\<open>n\<close>,
  \<^verbatim>\<open>local_n\<close>, \<^verbatim>\<open>randmax\<close> and \<^verbatim>\<open>scalar\<close> are passed on as this one value; ranks that
  disagreed would be out of step in the next collective.
\<close>

definition common :: "'a list \<Rightarrow> 'a option" where
  "common vs = (case vs of [] \<Rightarrow> None | v # ws \<Rightarrow> if list_all (\<lambda>w. w = v) ws then Some v else None)"

definition gbind_common :: "('d, 'a) group \<Rightarrow> ('a \<Rightarrow> ('d, 'b) group) \<Rightarrow> ('d, 'b) group" where
  "gbind_common g f =
     gbind g (\<lambda>vs. case common vs of Some v \<Rightarrow> f v | None \<Rightarrow> map (\<lambda>_. ([], Blocked)) vs)"

section \<open>The distributed program: \<^verbatim>\<open>mpi_vector_add2.c\<close>\<close>

subsection \<open>\<^verbatim>\<open>Check_for_error\<close>\<close>

text \<open>
  The body at one rank, after \<^verbatim>\<open>MPI_Allreduce\<close> has stored \<^verbatim>\<open>ok\<close>. \<^verbatim>\<open>MPI_Finalize\<close> before
  \<^verbatim>\<open>exit(-1)\<close> has no effect that the model observes.
\<close>

definition Check_for_error_rank :: "int \<Rightarrow> string \<Rightarrow> string \<Rightarrow> nat \<Rightarrow> ('d, unit) run" where
  "Check_for_error_rank ok fname message my_rank =
     (if ok = 0 then
        ((if my_rank = 0
          then [Stderr ''Proc %d > In %s, %s\<newline>'' [AInt (int my_rank), AStr fname, AStr message]]
          else []),
         Exited (- 1))
      else ([], Returned ()))"

text \<open>
  The call over the group: \<open>local_oks\<close> are the flags the ranks pass, in rank order. At
  each call site of the program every rank passes the same \<^verbatim>\<open>fname\<close> and \<^verbatim>\<open>message\<close>.
\<close>

definition Check_for_error :: "int list \<Rightarrow> string \<Rightarrow> string \<Rightarrow> ('d, unit) group" where
  "Check_for_error local_oks fname message =
     each (length local_oks) (Check_for_error_rank (MPI_Allreduce_MIN local_oks) fname message)"

subsection \<open>\<^verbatim>\<open>Read_n\<close>\<close>

text \<open>
  \<^verbatim>\<open>if (*n_p < 0 || *n_p % comm_sz != 0) local_ok = 0;\<close> with \<^verbatim>\<open>local_ok\<close> starting at 1;
  \<^verbatim>\<open>||\<close> does not evaluate its right side when the left is true.
\<close>

definition Read_n_local_ok :: "int \<Rightarrow> int \<Rightarrow> int outcome" where
  "Read_n_local_ok n comm_sz =
     (if n < 0 then Returned 0
      else case c_mod n comm_sz of
             None \<Rightarrow> Undefined DivByZero
           | Some m \<Rightarrow> if m \<noteq> 0 then Returned 0 else Returned 1)"

text \<open>
  \<open>stdin_n\<close> is the integer \<^verbatim>\<open>scanf\<close> reads at rank 0; after \<^verbatim>\<open>MPI_Bcast\<close> it is \<^verbatim>\<open>*n_p\<close> at
  every rank. Each rank returns \<^verbatim>\<open>(*n_p, *local_n_p)\<close>.
\<close>

definition Read_n :: "int \<Rightarrow> nat \<Rightarrow> ('d, int \<times> int) group" where
  "Read_n stdin_n comm_sz =
     gbind (each comm_sz (\<lambda>my_rank.
              (if my_rank = 0 then [Stdout ''What's the order of the vectors?\<newline>'' []] else [],
               Read_n_local_ok stdin_n (int comm_sz))))
       (\<lambda>local_oks.
     gbind (Check_for_error local_oks ''Read_n''
              ''n should be >= 100,000 and evenly divisible by comm_sz'')
       (\<lambda>_.
     each comm_sz (\<lambda>my_rank.
       ([], case c_div stdin_n (int comm_sz) of
              None \<Rightarrow> Undefined DivByZero
            | Some local_n \<Rightarrow> Returned (stdin_n, local_n)))))"

subsection \<open>\<^verbatim>\<open>Read_RandMax\<close>\<close>

definition Read_RandMax :: "int \<Rightarrow> nat \<Rightarrow> ('d, int) group" where
  "Read_RandMax stdin_randmax comm_sz =
     gbind (each comm_sz (\<lambda>my_rank.
              (if my_rank = 0 then [Stdout ''What's the max number for random?\<newline>'' []] else [],
               Returned (if stdin_randmax < 0 then 0 else 1))))
       (\<lambda>local_oks.
     gbind (Check_for_error local_oks ''Read_RandMax'' ''randmax should be >= 100,000'')
       (\<lambda>_.
     each comm_sz (\<lambda>my_rank. ([], Returned stdin_randmax))))"

subsection \<open>\<^verbatim>\<open>Allocate_vectors\<close>\<close>

text \<open>
  \<open>mallocs my_rank\<close> tells which of the three \<^verbatim>\<open>malloc\<close> calls of that rank gave a block
  (\<open>True\<close>) and which gave \<^verbatim>\<open>NULL\<close>. The blocks are uninitialised; their first content
  is what \<^verbatim>\<open>MPI_Scatter\<close> stores in \<^verbatim>\<open>Generate_vector\<close>, all \<open>local_n\<close> cells at once.
\<close>

definition Allocate_vectors ::
  "int \<Rightarrow> (nat \<Rightarrow> bool \<times> bool \<times> bool) \<Rightarrow> nat \<Rightarrow> ('d, unit) group" where
  "Allocate_vectors local_n mallocs comm_sz =
     gbind (each comm_sz (\<lambda>my_rank.
              ([], case mallocs my_rank of
                     (local_x_p, local_y_p, local_z_p) \<Rightarrow>
                       Returned (if \<not> local_x_p \<or> \<not> local_y_p \<or> \<not> local_z_p then 0 else 1))))
       (\<lambda>local_oks.
     Check_for_error local_oks ''Allocate_vectors'' ''Can't allocate local vector(s)'')"

subsection \<open>\<^verbatim>\<open>Generate_vector\<close>\<close>

text \<open>A computation of one process that prints nothing: a fault or a value.\<close>

definition run_of :: "fault + 'a \<Rightarrow> ('d, 'a) run" where
  "run_of c = (case c of Inl u \<Rightarrow> ([], Undefined u) | Inr v \<Rightarrow> ([], Returned v))"

text \<open>
  \<^verbatim>\<open>for (i = 0; i < n; i++) a[i] = rand() % randmax;\<close> at rank 0. \<open>rand k\<close> is the value of
  the \<open>k\<close>-th call of \<^verbatim>\<open>rand()\<close> in this loop, which the C library keeps between 0 and
  \<^verbatim>\<open>RAND_MAX\<close>. The assignment converts the \<^verbatim>\<open>int\<close> to \<^verbatim>\<open>double\<close>. The buffer from \<^verbatim>\<open>malloc\<close>
  starts with every cell indeterminate (\<open>None\<close>).
\<close>

function Generate_loop ::
  "(int \<Rightarrow> 'd) \<Rightarrow> (nat \<Rightarrow> nat) \<Rightarrow> int \<Rightarrow> int \<Rightarrow> int \<Rightarrow> 'd option list \<Rightarrow> fault + 'd option list" where
  "Generate_loop to_double rand randmax n i a =
     (if i < n then
        (case c_mod (int (rand (nat i))) randmax of
           None \<Rightarrow> Inl DivByZero
         | Some v \<Rightarrow>
             (case wr a i (Some (to_double v)) of
                None \<Rightarrow> Inl OutOfBounds
              | Some a' \<Rightarrow> Generate_loop to_double rand randmax n (i + 1) a'))
      else Inr a)"
  by pat_completeness auto
termination
  by (relation "measure (\<lambda>(to_double, rand, randmax, n, i, a). nat (n - i))") auto

text \<open>
  \<open>a_p\<close> tells whether \<^verbatim>\<open>malloc(n*sizeof(double))\<close> at rank 0 gave a block. Rank \<open>r\<close>
  returns the content of its \<^verbatim>\<open>local_a\<close>. When the loop at rank 0 faults, the other ranks
  have passed \<^verbatim>\<open>Check_for_error\<close> and wait in \<^verbatim>\<open>MPI_Scatter\<close>. \<^verbatim>\<open>vec_name\<close> is not used: the
  \<^verbatim>\<open>printf\<close> that named the vector is commented out.
\<close>

definition Generate_vector ::
  "(int \<Rightarrow> 'd) \<Rightarrow> int \<Rightarrow> int \<Rightarrow> string \<Rightarrow> nat \<Rightarrow> int \<Rightarrow> (nat \<Rightarrow> nat) \<Rightarrow> bool
     \<Rightarrow> ('d, 'd list) group" where
  "Generate_vector to_double local_n n vec_name comm_sz randmax rand a_p =
     gbind (each comm_sz (\<lambda>my_rank. ([], Returned (if my_rank = 0 \<and> \<not> a_p then 0 else 1))))
       (\<lambda>local_oks.
     gbind (Check_for_error local_oks ''Generate_vector'' ''Can't allocate temporary vector'')
       (\<lambda>_.
     case Generate_loop to_double rand randmax n 0 (replicate (nat n) None) of
       Inl u \<Rightarrow> each comm_sz (\<lambda>my_rank. ([], if my_rank = 0 then Undefined u else Blocked))
     | Inr cells \<Rightarrow>
         (case those cells of
            None \<Rightarrow> each comm_sz (\<lambda>my_rank. ([], Undefined ReadUninit))
          | Some a \<Rightarrow>
              (case MPI_Scatter a local_n comm_sz of
                 None \<Rightarrow> each comm_sz (\<lambda>my_rank. ([], Undefined OutOfBounds))
               | Some local_as \<Rightarrow> map (\<lambda>local_a. ([], Returned local_a)) local_as))))"

subsection \<open>\<^verbatim>\<open>PrintTopDown_vector\<close>\<close>

text \<open>\<^verbatim>\<open>for (i = lo; i < hi; i++) printf("%lf,", b[i]);\<close>\<close>

function print_loop :: "'d list \<Rightarrow> int \<Rightarrow> int \<Rightarrow> ('d, unit) run" where
  "print_loop b i hi =
     (if i < hi then
        (case rd b i of
           None \<Rightarrow> ([], Undefined OutOfBounds)
         | Some v \<Rightarrow> emit [Stdout ''%lf,'' [ADouble v]] (print_loop b (i + 1) hi))
      else ([], Returned ()))"
  by pat_completeness auto
termination
  by (relation "measure (\<lambda>(b, i, hi). nat (hi - i))") auto

text \<open>\<^verbatim>\<open>printf("%lf]\n", b[i]);\<close>\<close>

definition print_last :: "'d list \<Rightarrow> int \<Rightarrow> ('d, unit) run" where
  "print_last b i =
     (case rd b i of
        None \<Rightarrow> ([], Undefined OutOfBounds)
      | Some v \<Rightarrow> ([Stdout ''%lf]\<newline>'' [ADouble v]], Returned ()))"

text \<open>
  The eight output statements, from \<^verbatim>\<open>printf("%s\n", title)\<close> to \<^verbatim>\<open>printf("%lf]\n", b[n-1])\<close>.
  The serial program has the same statements in its own \<^verbatim>\<open>PrintTopDown_vector\<close>.
\<close>

definition print_top_down :: "'d list \<Rightarrow> int \<Rightarrow> string \<Rightarrow> ('d, unit) run" where
  "print_top_down b n title =
     emit [Stdout ''%s\<newline>'' [AStr title], Stdout ''0 - 10: ['' []]
       (bind_run (print_loop b 0 9) (\<lambda>_.
        bind_run (print_last b 9) (\<lambda>_.
        emit [Stdout ''%d - %d: ['' [AInt (n - 10), AInt n]]
          (bind_run (print_loop b (n - 10) (n - 1)) (\<lambda>_.
           print_last b (n - 1))))))"

text \<open>
  \<open>local_bs\<close> are the ranks' \<^verbatim>\<open>local_b\<close> in rank order; \<open>b_p\<close> tells whether
  \<^verbatim>\<open>malloc(n*sizeof(double))\<close> at rank 0 gave a block.
\<close>

definition PrintTopDown_vector ::
  "'d list list \<Rightarrow> int \<Rightarrow> int \<Rightarrow> string \<Rightarrow> nat \<Rightarrow> bool \<Rightarrow> ('d, unit) group" where
  "PrintTopDown_vector local_bs local_n n title comm_sz b_p =
     gbind (each comm_sz (\<lambda>my_rank. ([], Returned (if my_rank = 0 \<and> \<not> b_p then 0 else 1))))
       (\<lambda>local_oks.
     gbind (Check_for_error local_oks ''PrintTopDown_vector'' ''Can't allocate temporary vector'')
       (\<lambda>_.
     case MPI_Gather local_bs local_n n of
       None \<Rightarrow> each comm_sz (\<lambda>my_rank. ([], Undefined OutOfBounds))
     | Some b \<Rightarrow>
         each comm_sz (\<lambda>my_rank. if my_rank = 0 then print_top_down b n title else ([], Returned ()))))"

subsection \<open>\<^verbatim>\<open>Read_Scalar\<close>\<close>

text \<open>
  \<open>stdin_scalar\<close> is the integer \<^verbatim>\<open>scanf\<close> reads at rank 0; \<^verbatim>\<open>MPI_Bcast\<close> stores it in
  \<^verbatim>\<open>*scalar\<close> at every rank. \<^verbatim>\<open>local_ok\<close> and \<^verbatim>\<open>fname\<close> are declared and never used.
\<close>

definition Read_Scalar :: "int \<Rightarrow> nat \<Rightarrow> ('d, int) group" where
  "Read_Scalar stdin_scalar comm_sz =
     each comm_sz (\<lambda>my_rank.
       (if my_rank = 0
        then [Stdout ''\<newline>What's the number for the scalar?\<newline>'' []]
        else [],
        Returned stdin_scalar))"

subsection \<open>\<^verbatim>\<open>Parallel_vector_scalar\<close>\<close>

text \<open>
  \<^verbatim>\<open>for (local_i = 0; local_i < local_n; local_i++)
     local_arr[local_i] = local_arr[local_i] * scalar;\<close> where the \<^verbatim>\<open>int\<close> is converted to
  \<^verbatim>\<open>double\<close> and the product is the one of the element type, the old element on the left.
\<close>

function Parallel_vector_scalar_loop ::
  "(int \<Rightarrow> 'd::times) \<Rightarrow> int \<Rightarrow> 'd list \<Rightarrow> int \<Rightarrow> int \<Rightarrow> fault + 'd list" where
  "Parallel_vector_scalar_loop to_double scalar local_arr local_n local_i =
     (if local_i < local_n then
        (case rd local_arr local_i of
           None \<Rightarrow> Inl OutOfBounds
         | Some v \<Rightarrow>
             (case wr local_arr local_i (v * to_double scalar) of
                None \<Rightarrow> Inl OutOfBounds
              | Some local_arr' \<Rightarrow>
                  Parallel_vector_scalar_loop to_double scalar local_arr' local_n (local_i + 1)))
      else Inr local_arr)"
  by pat_completeness auto
termination
  by (relation "measure (\<lambda>(to_double, scalar, local_arr, local_n, local_i). nat (local_n - local_i))")
    auto

definition Parallel_vector_scalar ::
  "(int \<Rightarrow> 'd::times) \<Rightarrow> int \<Rightarrow> 'd list \<Rightarrow> int \<Rightarrow> nat \<Rightarrow> fault + 'd list" where
  "Parallel_vector_scalar to_double scalar local_arr local_n my_rank =
     Parallel_vector_scalar_loop to_double scalar local_arr local_n 0"

subsection \<open>\<^verbatim>\<open>Parallel_vector_dot\<close> and \<^verbatim>\<open>Display_dot_result\<close>\<close>

text \<open>\<^verbatim>\<open>for (i = 0; i < local_n; i++) local_dot += local_x[i]*local_y[i];\<close>\<close>

function Parallel_vector_dot_loop ::
  "'a::{plus,times} list \<Rightarrow> 'a list \<Rightarrow> int \<Rightarrow> int \<Rightarrow> 'a \<Rightarrow> fault + 'a" where
  "Parallel_vector_dot_loop local_x local_y local_n i local_dot =
     (if i < local_n then
        (case rd local_x i of
           None \<Rightarrow> Inl OutOfBounds
         | Some xi \<Rightarrow>
             (case rd local_y i of
                None \<Rightarrow> Inl OutOfBounds
              | Some yi \<Rightarrow>
                  Parallel_vector_dot_loop local_x local_y local_n (i + 1) (local_dot + xi * yi)))
      else Inr local_dot)"
  by pat_completeness auto
termination
  by (relation "measure (\<lambda>(local_x, local_y, local_n, i, local_dot). nat (local_n - i))") auto

text \<open>The part of \<^verbatim>\<open>Parallel_vector_dot\<close> before \<^verbatim>\<open>MPI_Reduce\<close>: \<^verbatim>\<open>local_dot\<close> at one rank.\<close>

definition local_dot_of :: "'a::{zero,plus,times} list \<Rightarrow> 'a list \<Rightarrow> int \<Rightarrow> fault + 'a" where
  "local_dot_of local_x local_y local_n = Parallel_vector_dot_loop local_x local_y local_n 0 0"

text \<open>
  \<open>local_xys\<close> are the ranks' \<^verbatim>\<open>local_x\<close> and \<^verbatim>\<open>local_y\<close>, \<open>results\<close> what \<^verbatim>\<open>*result\<close> holds at
  each rank before the call (\<open>None\<close>: indeterminate). Each rank returns what \<^verbatim>\<open>*result\<close>
  holds after it: \<^verbatim>\<open>MPI_Reduce\<close> stores the sum at the root and nothing anywhere else.
\<close>

definition Parallel_vector_dot ::
  "('a::{zero,plus,times} list \<times> 'a list) list \<Rightarrow> int \<Rightarrow> 'a option list
     \<Rightarrow> ('d, 'a option) group" where
  "Parallel_vector_dot local_xys local_n results =
     gbind (map (\<lambda>(local_x, local_y). run_of (local_dot_of local_x local_y local_n)) local_xys)
       (\<lambda>local_dots.
     map (\<lambda>(my_rank, result).
            ([], Returned (if my_rank = 0 then Some (MPI_Reduce_SUM local_dots) else result)))
         (zip [0..<length local_xys] results))"

definition Display_dot_result :: "nat \<Rightarrow> 'd option \<Rightarrow> ('d, unit) run" where
  "Display_dot_result my_rank result =
     (if my_rank = 0 then
        (case result of
           None \<Rightarrow> ([], Undefined ReadUninit)
         | Some v \<Rightarrow> ([Stdout ''\<newline>Result of dot product: %lf\<newline>'' [ADouble v]], Returned ()))
      else ([], Returned ()))"

subsection \<open>\<^verbatim>\<open>main\<close>\<close>

text \<open>
  What a run of the distributed program gets from outside: the size of
  \<^verbatim>\<open>MPI_COMM_WORLD\<close>, the three integers typed at rank 0, the values of \<^verbatim>\<open>rand()\<close> at rank 0
  in the order of the calls, the fate of the \<^verbatim>\<open>malloc\<close> calls (those of \<^verbatim>\<open>Allocate_vectors\<close>
  by rank, the temporary buffers of rank 0 in the order of the six calls that ask for
  one), and the time between the two calls of \<^verbatim>\<open>MPI_Wtime\<close>.
\<close>

record 'd world =
  world_comm_sz :: nat
  world_n :: int
  world_randmax :: int
  world_scalar :: int
  world_rand :: "nat \<Rightarrow> nat"
  world_mallocs :: "nat \<Rightarrow> bool \<times> bool \<times> bool"
  world_tmp_malloc :: "nat \<Rightarrow> bool"
  world_elapsed :: 'd

text \<open>
  Each rank returns the value of \<^verbatim>\<open>main\<close>. The second \<^verbatim>\<open>Generate_vector\<close> goes on in the
  sequence of \<^verbatim>\<open>rand()\<close> where the first, which made \<open>n\<close> calls, stopped. \<^verbatim>\<open>result\<close> is
  declared without a value.
\<close>

definition main :: "(int \<Rightarrow> 'd::{zero,plus,times}) \<Rightarrow> 'd world \<Rightarrow> ('d, int) group" where
  "main to_double w =
     (let comm_sz = world_comm_sz w in
      gbind_common (Read_n (world_n w) comm_sz) (\<lambda>(n, local_n).
      gbind_common (Read_RandMax (world_randmax w) comm_sz) (\<lambda>randmax.
      gbind (Allocate_vectors local_n (world_mallocs w) comm_sz) (\<lambda>_.
      gbind (Generate_vector to_double local_n n ''x'' comm_sz randmax (world_rand w)
               (world_tmp_malloc w 0))
        (\<lambda>local_xs.
      gbind (PrintTopDown_vector local_xs local_n n ''Vector x'' comm_sz (world_tmp_malloc w 1))
        (\<lambda>_.
      gbind (Generate_vector to_double local_n n ''y'' comm_sz randmax
               (\<lambda>k. world_rand w (nat n + k)) (world_tmp_malloc w 2))
        (\<lambda>local_ys.
      gbind (PrintTopDown_vector local_ys local_n n ''Vector y'' comm_sz (world_tmp_malloc w 3))
        (\<lambda>_.
      gbind_common (Read_Scalar (world_scalar w) comm_sz) (\<lambda>scalar.
      gbind (map (\<lambda>(my_rank, local_x).
                    run_of (Parallel_vector_scalar to_double scalar local_x local_n my_rank))
               (zip [0..<comm_sz] local_xs))
        (\<lambda>local_xs.
      gbind (PrintTopDown_vector local_xs local_n n ''Vector x by scalar'' comm_sz
               (world_tmp_malloc w 4))
        (\<lambda>_.
      gbind (map (\<lambda>(my_rank, local_y).
                    run_of (Parallel_vector_scalar to_double scalar local_y local_n my_rank))
               (zip [0..<comm_sz] local_ys))
        (\<lambda>local_ys.
      gbind (PrintTopDown_vector local_ys local_n n ''Vector y by scalar'' comm_sz
               (world_tmp_malloc w 5))
        (\<lambda>_.
      gbind (Parallel_vector_dot (zip local_xs local_ys) local_n (replicate comm_sz None))
        (\<lambda>results.
      gbind (map (\<lambda>(my_rank, result). Display_dot_result my_rank result) (zip [0..<comm_sz] results))
        (\<lambda>_.
      each comm_sz (\<lambda>my_rank.
        (if my_rank = 0
         then [Stdout ''\<newline>Took %.3lf s to run\<newline>'' [ADouble (world_elapsed w)]]
         else [],
         Returned 0)))))))))))))))))"

section \<open>The serial program: \<^verbatim>\<open>vector_add2.c\<close>\<close>

text \<open>One process; the functions carry the prefix \<open>serial\<close> where the two files share a name.\<close>

definition serial_Read_n :: "int \<Rightarrow> ('d, int) run" where
  "serial_Read_n stdin_n =
     emit [Stdout ''What's the order of the vectors?\<newline>'' []]
       (if stdin_n \<le> 0
        then ([Stderr ''Order should be positive\<newline>'' []], Exited (- 1))
        else ([], Returned stdin_n))"

text \<open>
  The test \<^verbatim>\<open>if (randmax <= 0)\<close> compares the pointer \<^verbatim>\<open>randmax\<close>, the address of a variable
  of \<^verbatim>\<open>main\<close>, and not the integer read: it is never true, and no value is refused.
\<close>

definition serial_Read_RandMax :: "int \<Rightarrow> ('d, int) run" where
  "serial_Read_RandMax stdin_randmax =
     emit [Stdout ''What's the max number for random?\<newline>'' []] ([], Returned stdin_randmax)"

definition serial_Allocate_vectors :: "int \<Rightarrow> bool \<times> bool \<times> bool \<Rightarrow> ('d, unit) run" where
  "serial_Allocate_vectors n mallocs =
     (case mallocs of
        (x_p, y_p, z_p) \<Rightarrow>
          if \<not> x_p \<or> \<not> y_p \<or> \<not> z_p
          then ([Stderr ''Can't allocate vectors\<newline>'' []], Exited (- 1))
          else ([], Returned ()))"

text \<open>
  The loop is the one of the distributed \<^verbatim>\<open>Generate_vector\<close>, statement for statement; it
  writes into \<^verbatim>\<open>a\<close>, the block of \<open>n\<close> cells from \<^verbatim>\<open>Allocate_vectors\<close>.
\<close>

definition serial_Generate_vector ::
  "(int \<Rightarrow> 'd) \<Rightarrow> int \<Rightarrow> string \<Rightarrow> int \<Rightarrow> (nat \<Rightarrow> nat) \<Rightarrow> ('d, 'd option list) run" where
  "serial_Generate_vector to_double n vec_name randmax rand =
     bind_run (run_of (Generate_loop to_double rand randmax n 0 (replicate (nat n) None))) (\<lambda>a.
       ([Stdout ''Vector %s generated ...\<newline>'' [AStr vec_name]], Returned a))"

text \<open>Reading the cells of a block that may hold indeterminate ones.\<close>

definition serial_PrintTopDown_vector :: "'d option list \<Rightarrow> int \<Rightarrow> string \<Rightarrow> ('d, unit) run" where
  "serial_PrintTopDown_vector b n title =
     (case those b of
        None \<Rightarrow> ([], Undefined ReadUninit)
      | Some b' \<Rightarrow> print_top_down b' n title)"

text \<open>\<^verbatim>\<open>for (i = 0; i < n; i++) z[i] = x[i] + y[i];\<close>\<close>

function Vector_sum_loop ::
  "'d::plus list \<Rightarrow> 'd list \<Rightarrow> 'd option list \<Rightarrow> int \<Rightarrow> int \<Rightarrow> fault + 'd option list" where
  "Vector_sum_loop x y z n i =
     (if i < n then
        (case rd x i of
           None \<Rightarrow> Inl OutOfBounds
         | Some xi \<Rightarrow>
             (case rd y i of
                None \<Rightarrow> Inl OutOfBounds
              | Some yi \<Rightarrow>
                  (case wr z i (Some (xi + yi)) of
                     None \<Rightarrow> Inl OutOfBounds
                   | Some z' \<Rightarrow> Vector_sum_loop x y z' n (i + 1))))
      else Inr z)"
  by pat_completeness auto
termination
  by (relation "measure (\<lambda>(x, y, z, n, i). nat (n - i))") auto

definition Vector_sum ::
  "'d::plus option list \<Rightarrow> 'd option list \<Rightarrow> 'd option list \<Rightarrow> int \<Rightarrow> ('d, 'd option list) run" where
  "Vector_sum x y z n =
     (case (those x, those y) of
        (Some x', Some y') \<Rightarrow> run_of (Vector_sum_loop x' y' z n 0)
      | _ \<Rightarrow> ([], Undefined ReadUninit))"

text \<open>
  What a run of the serial program gets from outside: the two integers typed, the values
  of \<^verbatim>\<open>rand()\<close>, the fate of the three \<^verbatim>\<open>malloc\<close> calls, and the milliseconds between the
  two calls of \<^verbatim>\<open>clock()\<close>.
\<close>

record serial_world =
  serial_n :: int
  serial_randmax :: int
  serial_rand :: "nat \<Rightarrow> nat"
  serial_mallocs :: "bool \<times> bool \<times> bool"
  serial_msec :: int

text \<open>
  \<^verbatim>\<open>msec\<close> is not negative, so \<^verbatim>\<open>msec/1000\<close> and \<^verbatim>\<open>msec%1000\<close> are \<open>div\<close> and \<open>mod\<close>. The sum
  \<^verbatim>\<open>z\<close> is computed and freed; nothing prints it.
\<close>

definition serial_main :: "(int \<Rightarrow> 'd::plus) \<Rightarrow> serial_world \<Rightarrow> ('d, int) run" where
  "serial_main to_double w =
     bind_run (serial_Read_n (serial_n w)) (\<lambda>n.
     bind_run (serial_Read_RandMax (serial_randmax w)) (\<lambda>randmax.
     bind_run (serial_Allocate_vectors n (serial_mallocs w)) (\<lambda>_.
     bind_run (serial_Generate_vector to_double n ''x'' randmax (serial_rand w)) (\<lambda>x.
     bind_run (serial_Generate_vector to_double n ''y'' randmax (\<lambda>k. serial_rand w (nat n + k))) (\<lambda>y.
     bind_run (serial_PrintTopDown_vector x n ''Vector x'') (\<lambda>_.
     bind_run (serial_PrintTopDown_vector y n ''Vector y'') (\<lambda>_.
     bind_run (Vector_sum x y (replicate (nat n) None) n) (\<lambda>z.
       ([Stdout ''\<newline>Took %d.%d s to run\<newline>''
           [AInt (serial_msec w div 1000), AInt (serial_msec w mod 1000)]],
        Returned 0)))))))))"

section \<open>Comparing two runs\<close>

text \<open>
  Two groups end alike when, rank by rank, both return, with values related by \<open>R\<close>, or
  both leave with the same exit code, or both run into the same fault, or both wait.
\<close>

definition alike :: "('a \<Rightarrow> 'b \<Rightarrow> bool) \<Rightarrow> ('d, 'a) group \<Rightarrow> ('d, 'b) group \<Rightarrow> bool" where
  "alike R g g' = list_all2 (\<lambda>r r'. rel_outcome R (snd r) (snd r')) g g'"

text \<open>Two blocks that both hold \<open>local_n\<close> elements.\<close>

definition both_of_length :: "int \<Rightarrow> 'a list \<Rightarrow> 'b list \<Rightarrow> bool" where
  "both_of_length local_n x x' = (int (length x) = local_n \<and> int (length x') = local_n)"


section \<open>Properties\<close>

subsection \<open>The error gate and the order of the vectors\<close>

lemma those_map_Some: "those (map (\<lambda>x. Some (f x)) xs) = Some (map f xs)"
  by (induction xs) simp_all

lemma gbind_all_returned:
  "gbind (map (\<lambda>x. (es x, Returned (v x))) xs) f =
     map (\<lambda>(e, r). emit e r) (zip (map es xs) (f (map v xs)))"
  by (simp add: gbind_def comp_def those_map_Some)

lemma gbind_each_returned:
  "gbind (each comm_sz (\<lambda>r. (es r, Returned (v r)))) f =
     map (\<lambda>(e, r). emit e r) (zip (map es [0..<comm_sz]) (f (map v [0..<comm_sz])))"
  unfolding each_def by (rule gbind_all_returned)

lemma zip_map_each:
  "map (\<lambda>(e, r). emit e r) (zip (map es [0..<comm_sz]) (each comm_sz body)) =
     each comm_sz (\<lambda>r. emit (es r) (body r))"
  by (simp add: each_def zip_map_map zip_same_conv_map comp_def)

lemma Min_flags:
  assumes "set local_oks \<subseteq> {0, 1}" "local_oks \<noteq> []"
  shows "MPI_Allreduce_MIN local_oks = (if 0 \<in> set local_oks then 0 else 1)"
proof (cases "0 \<in> set local_oks")
  case True
  have "Min (set local_oks) \<le> 0" using True by simp
  moreover have "Min (set local_oks) \<in> set local_oks" using assms by simp
  ultimately have "Min (set local_oks) = 0" using assms(1) by auto
  then show ?thesis using True by (simp add: MPI_Allreduce_MIN_def)
next
  case False
  have "Min (set local_oks) \<in> set local_oks" using assms by simp
  then have "Min (set local_oks) = 1" using assms(1) False by auto
  then show ?thesis using False by (simp add: MPI_Allreduce_MIN_def)
qed

lemma each_const: "each comm_sz (\<lambda>my_rank. r) = replicate comm_sz r"
  by (simp add: each_def map_replicate_const)

lemma each_root: "0 < comm_sz \<Longrightarrow> each comm_sz body = body 0 # map body [1..<comm_sz]"
  by (simp add: each_def upt_conv_Cons)

lemma Check_for_error_rank_pass:
  "ok \<noteq> 0 \<Longrightarrow> Check_for_error_rank ok fname message = (\<lambda>my_rank. ([], Returned ()))"
  by (intro ext) (simp add: Check_for_error_rank_def)

lemma Check_for_error_pass:
  "ok \<noteq> 0 \<Longrightarrow> each comm_sz (Check_for_error_rank ok fname message) = replicate comm_sz ([], Returned ())"
  by (simp add: Check_for_error_rank_pass each_const)

lemma Check_for_error_fail:
  assumes "0 < comm_sz"
  shows "each comm_sz (Check_for_error_rank 0 fname message) =
     ([Stderr ''Proc %d > In %s, %s\<newline>'' [AInt 0, AStr fname, AStr message]], Exited (- 1))
       # replicate (comm_sz - 1) ([], Exited (- 1))"
proof -
  have "map (Check_for_error_rank 0 fname message) [1..<comm_sz]
       = map (\<lambda>my_rank. ([], Exited (- 1))) [1..<comm_sz]"
    by (simp add: Check_for_error_rank_def)
  then show ?thesis
    using assms by (simp add: each_root map_replicate_const Check_for_error_rank_def)
qed

text \<open>
  Claim C6. Over a group of health flags (1 healthy, 0 unhealthy) the gate computes the
  logical AND of the flags as their minimum. When the combined flag is 0, rank 0 alone
  writes one line to the error channel, \<^verbatim>\<open>"Proc %d > In %s, %s\n"\<close> with its rank 0, the
  context and the message, and every rank leaves with exit code -1. When every flag is
  1, every rank returns with no output.
\<close>

theorem Check_for_error_gate:
  assumes "set local_oks \<subseteq> {0, 1}" and "local_oks \<noteq> []"
  shows "MPI_Allreduce_MIN local_oks = (if list_all (\<lambda>local_ok. local_ok = 1) local_oks then 1 else 0)
    \<and> Check_for_error local_oks fname message =
        (if MPI_Allreduce_MIN local_oks = 0
         then ([Stderr ''Proc %d > In %s, %s\<newline>'' [AInt 0, AStr fname, AStr message]], Exited (- 1))
              # replicate (length local_oks - 1) ([], Exited (- 1))
         else replicate (length local_oks) ([], Returned ()))"
proof -
  have all1: "list_all (\<lambda>local_ok. local_ok = 1) local_oks \<longleftrightarrow> 0 \<notin> set local_oks"
    using assms(1) by (auto simp: list_all_iff)
  have len: "0 < length local_oks" using assms(2) by simp
  show ?thesis
    using Min_flags[OF assms] all1
    by (simp add: Check_for_error_def Check_for_error_pass Check_for_error_fail[OF len])
qed

theorem Check_for_error_gate_witness:
  "set [1, 0, 1 :: int] \<subseteq> {0, 1} \<and> [1, 0, 1 :: int] \<noteq> []
   \<and> MPI_Allreduce_MIN [1, 0, 1] = 0
   \<and> (Check_for_error [1, 0, 1] ''Read_n'' ''bad order'' :: (double, unit) group) =
       [([Stderr ''Proc %d > In %s, %s\<newline>'' [AInt 0, AStr ''Read_n'', AStr ''bad order'']], Exited (- 1)),
        ([], Exited (- 1)), ([], Exited (- 1))]"
  using Check_for_error_gate [where ?'a = double, of "[1, 0, 1]" "''Read_n''" "''bad order''"]
  by (simp add: eval_nat_numeral)

lemma smod_nonneg: "0 \<le> (a::int) \<Longrightarrow> 0 < b \<Longrightarrow> a smod b = a mod b"
  by (simp add: smod_int_alt_def sgn_if)

lemma sdiv_nonneg: "0 \<le> (a::int) \<Longrightarrow> 0 < b \<Longrightarrow> a sdiv b = a div b"
  by (simp add: signed_divide_int_def sgn_if)

lemma Allreduce_MIN_const: "0 < comm_sz \<Longrightarrow> MPI_Allreduce_MIN (map (\<lambda>my_rank. c) [0..<comm_sz]) = c"
  by (simp add: MPI_Allreduce_MIN_def)

lemma those_map_None: "xs \<noteq> [] \<Longrightarrow> those (map (\<lambda>x. None) xs) = None"
  by (cases xs) simp_all

lemma gbind_each_exited:
  "gbind (each comm_sz (\<lambda>r. (es r, Exited c))) f = each comm_sz (\<lambda>r. (es r, Exited c))"
  by (cases "comm_sz = 0") (simp_all add: gbind_def each_def comp_def those_map_None)

lemma gbind_each_each:
  "gbind (each comm_sz (\<lambda>r. (es r, Returned (v r)))) (\<lambda>vs. each comm_sz (body vs)) =
     each comm_sz (\<lambda>r. emit (es r) (body (map v [0..<comm_sz]) r))"
  by (simp add: gbind_each_returned zip_map_each)

lemma Check_for_error_const:
  "0 < comm_sz \<Longrightarrow> Check_for_error (map (\<lambda>my_rank. c) [0..<comm_sz]) fname message =
     each comm_sz (Check_for_error_rank c fname message)"
  by (simp add: Check_for_error_def Allreduce_MIN_const)

lemma Read_n_eq:
  assumes "0 < comm_sz"
  shows "Read_n n comm_sz =
    each comm_sz (\<lambda>my_rank.
      if n < 0 \<or> n mod int comm_sz \<noteq> 0
      then ((if my_rank = 0
             then [Stdout ''What's the order of the vectors?\<newline>'' [],
                   Stderr ''Proc %d > In %s, %s\<newline>''
                     [AInt 0, AStr ''Read_n'',
                      AStr ''n should be >= 100,000 and evenly divisible by comm_sz'']]
             else []),
            Exited (- 1))
      else ((if my_rank = 0 then [Stdout ''What's the order of the vectors?\<newline>'' []] else []),
            Returned (n, n div int comm_sz)))"
proof -
  let ?bad = "n < 0 \<or> n mod int comm_sz \<noteq> 0"
  have lok: "Read_n_local_ok n (int comm_sz) = Returned (if ?bad then 0 else 1)"
    using assms by (simp add: Read_n_local_ok_def c_mod_def smod_nonneg)
  show ?thesis
  proof (cases ?bad)
    case True
    have chk: "Check_for_error_rank 0 fname message =
        (\<lambda>my_rank. (if my_rank = 0 then [Stderr ''Proc %d > In %s, %s\<newline>'' [AInt 0, AStr fname, AStr message]] else [], Exited (- 1)))" for fname message
      by (intro ext) (simp add: Check_for_error_rank_def)
    show ?thesis
      using True assms
      apply (simp only: Read_n_def lok gbind_each_returned if_True Check_for_error_const chk gbind_each_exited zip_map_each)
      apply (simp add: each_def emit_def)
      done
  next
    case False
    have chk: "Check_for_error_rank 1 fname message = (\<lambda>my_rank. ([], Returned ()))" for fname message
      by (intro ext) (simp add: Check_for_error_rank_def)
    have q: "c_div n (int comm_sz) = Some (n div int comm_sz)"
      using False assms by (simp add: c_div_def sdiv_nonneg)
    show ?thesis
      using False assms
      apply (simp only: Read_n_def lok gbind_each_returned if_False Check_for_error_const chk gbind_each_each zip_map_each q)
      apply (simp add: each_def emit_def)
      done
  qed
qed

text \<open>
  Claim C5. In a group of \<open>comm_sz > 0\<close> ranks, \<^verbatim>\<open>Read_n\<close> ends at every rank with
  \<^verbatim>\<open>exit(-1)\<close> out of \<^verbatim>\<open>Check_for_error\<close>, rank 0 printing the line of the gate, exactly when
  \<open>n < 0\<close> or \<open>n\<close> is not a multiple of \<open>comm_sz\<close>; otherwise every rank returns with
  \<^verbatim>\<open>*n_p = n\<close> and \<^verbatim>\<open>*local_n_p = n / comm_sz\<close>.
\<close>

theorem Read_n_validation:
  assumes "0 < comm_sz"
  shows "Read_n n comm_sz =
    each comm_sz (\<lambda>my_rank.
      if n < 0 \<or> n mod int comm_sz \<noteq> 0
      then ((if my_rank = 0
             then [Stdout ''What's the order of the vectors?\<newline>'' [],
                   Stderr ''Proc %d > In %s, %s\<newline>''
                     [AInt 0, AStr ''Read_n'',
                      AStr ''n should be >= 100,000 and evenly divisible by comm_sz'']]
             else []),
            Exited (- 1))
      else ((if my_rank = 0 then [Stdout ''What's the order of the vectors?\<newline>'' []] else []),
            Returned (n, n div int comm_sz)))"
  using assms by (rule Read_n_eq)

theorem Read_n_validation_witness:
  "0 < (2::nat)
   \<and> (Read_n 20 2 :: (double, int \<times> int) group) =
       [([Stdout ''What's the order of the vectors?\<newline>'' []], Returned (20, 10)),
        ([], Returned (20, 10))]
   \<and> map snd (Read_n 21 2 :: (double, int \<times> int) group) = [Exited (- 1), Exited (- 1)]"
  using Read_n_validation [where ?'a = double, of 2 20] Read_n_validation [where ?'a = double, of 2 21]
  by (simp add: each_def upt_conv_Cons)

subsection \<open>The local loops\<close>

declare Parallel_vector_scalar_loop.simps [simp del]
declare Parallel_vector_dot_loop.simps [simp del]
declare Generate_loop.simps [simp del]
declare print_loop.simps [simp del]
declare Vector_sum_loop.simps [simp del]

lemma nat_succ: "0 \<le> i \<Longrightarrow> nat (i + 1) = Suc (nat i)"
  by simp

lemma scalar_loop_eq:
  "0 \<le> local_i \<Longrightarrow> local_i \<le> local_n \<Longrightarrow> local_n = int (length local_arr) \<Longrightarrow>
   Parallel_vector_scalar_loop to_double scalar local_arr local_n local_i =
     Inr (take (nat local_i) local_arr @
          map (\<lambda>v. v * to_double scalar) (drop (nat local_i) local_arr))"
proof (induction to_double scalar local_arr local_n local_i rule: Parallel_vector_scalar_loop.induct)
  case (1 to_double scalar local_arr local_n local_i)
  show ?case
  proof (cases "local_i < local_n")
    case False
    with "1.prems" have "nat local_i = length local_arr" by simp
    with False show ?thesis
      by (subst Parallel_vector_scalar_loop.simps) simp
  next
    case True
    let ?k = "nat local_i"
    let ?v = "local_arr ! ?k"
    let ?arr' = "local_arr[?k := ?v * to_double scalar]"
    have k: "?k < length local_arr" using True "1.prems" by simp
    have r: "rd local_arr local_i = Some ?v" using True "1.prems" by (simp add: rd_def)
    have w: "wr local_arr local_i (?v * to_double scalar) = Some ?arr'"
      using True "1.prems" by (simp add: wr_def)
    have IH: "Parallel_vector_scalar_loop to_double scalar ?arr' local_n (local_i + 1) =
        Inr (take (nat (local_i + 1)) ?arr' @
             map (\<lambda>v. v * to_double scalar) (drop (nat (local_i + 1)) ?arr'))"
      using "1.IH"[OF True r w] True "1.prems" by simp
    have n1: "nat (local_i + 1) = Suc ?k" using "1.prems" by simp
    have t: "take (Suc ?k) ?arr' = take ?k local_arr @ [?v * to_double scalar]"
      using k by (simp add: take_Suc_conv_app_nth)
    have d: "drop ?k local_arr = ?v # drop (Suc ?k) local_arr"
      using k by (simp add: Cons_nth_drop_Suc)
    show ?thesis
      by (subst Parallel_vector_scalar_loop.simps) (simp add: True r w IH n1 t d)
  qed
qed

lemma Parallel_vector_scalar_eq:
  "local_n = int (length local_arr) \<Longrightarrow>
   Parallel_vector_scalar to_double scalar local_arr local_n my_rank =
     Inr (map (\<lambda>v. v * to_double scalar) local_arr)"
  by (simp add: Parallel_vector_scalar_def scalar_loop_eq)

text \<open>
  Claim C4. For a block of \<open>local_n\<close> elements and any integer factor,
  \<^verbatim>\<open>Parallel_vector_scalar\<close> returns without a fault, the block keeps its length, and
  element \<open>i\<close> is the product of the old element \<open>i\<close> and the factor, converted to
  \<^verbatim>\<open>double\<close>, for every \<open>i < local_n\<close>: the product of the element type, whatever its laws
  and whatever the conversion, so the rounded product of binary64 where the elements are
  binary64.
\<close>

theorem Parallel_vector_scalar_scales:
  fixes local_arr :: "'d::times list" and to_double :: "int \<Rightarrow> 'd"
  assumes "local_n = int (length local_arr)"
  shows "\<exists>local_arr'.
           Parallel_vector_scalar to_double scalar local_arr local_n my_rank = Inr local_arr'
         \<and> length local_arr' = length local_arr
         \<and> (\<forall>i < length local_arr. local_arr' ! i = local_arr ! i * to_double scalar)"
  using assms by (simp add: Parallel_vector_scalar_eq)

theorem Parallel_vector_scalar_scales_witness:
  "(3::int) = int (length [1, 2, 5 :: double])
   \<and> (\<exists>local_arr'.
           Parallel_vector_scalar real_of_int (- 2) [1, 2, 5] 3 0 = Inr local_arr'
         \<and> length local_arr' = length [1, 2, 5 :: double]
         \<and> (\<forall>i < length [1, 2, 5 :: double]. local_arr' ! i = [1, 2, 5] ! i * real_of_int (- 2)))
   \<and> Parallel_vector_scalar real_of_int (- 2) [1, 2, 5] 3 0 = Inr [- 2, - 4, - 10]"
  using Parallel_vector_scalar_scales
          [where local_n = 3 and local_arr = "[1, 2, 5 :: double]" and to_double = real_of_int
             and scalar = "- 2" and my_rank = 0]
  by (simp add: Parallel_vector_scalar_def Parallel_vector_scalar_loop.simps rd_def wr_def)

lemma dot_loop_eq:
  "0 \<le> i \<Longrightarrow> i \<le> local_n \<Longrightarrow> local_n \<le> int (length local_x) \<Longrightarrow> local_n \<le> int (length local_y) \<Longrightarrow>
   Parallel_vector_dot_loop local_x local_y local_n i local_dot =
     Inr (foldl (\<lambda>acc (xi, yi). acc + xi * yi) local_dot
           (zip (drop (nat i) (take (nat local_n) local_x)) (drop (nat i) (take (nat local_n) local_y))))"
proof (induction local_x local_y local_n i local_dot rule: Parallel_vector_dot_loop.induct)
  case (1 local_x local_y local_n i local_dot)
  show ?case
  proof (cases "i < local_n")
    case False
    with "1.prems" have "nat i = nat local_n" by simp
    with False show ?thesis
      by (subst Parallel_vector_dot_loop.simps) simp
  next
    case True
    let ?k = "nat i"
    have kx: "?k < length (take (nat local_n) local_x)" and ky: "?k < length (take (nat local_n) local_y)"
      using True "1.prems" by simp_all
    have rx: "rd local_x i = Some (local_x ! ?k)" and ry: "rd local_y i = Some (local_y ! ?k)"
      using True "1.prems" by (simp_all add: rd_def)
    have n1: "nat (i + 1) = Suc ?k" using "1.prems" by simp
    have IH: "Parallel_vector_dot_loop local_x local_y local_n (i + 1) (local_dot + local_x ! ?k * local_y ! ?k) =
       Inr (foldl (\<lambda>acc (xi, yi). acc + xi * yi) (local_dot + local_x ! ?k * local_y ! ?k)
           (zip (drop (Suc ?k) (take (nat local_n) local_x)) (drop (Suc ?k) (take (nat local_n) local_y))))"
      using "1.IH"[OF True rx ry] True "1.prems" n1 by simp
    have dx: "drop ?k (take (nat local_n) local_x) = local_x ! ?k # drop (Suc ?k) (take (nat local_n) local_x)"
      using Cons_nth_drop_Suc[OF kx] kx by simp
    have dy: "drop ?k (take (nat local_n) local_y) = local_y ! ?k # drop (Suc ?k) (take (nat local_n) local_y)"
      using Cons_nth_drop_Suc[OF ky] ky by simp
    show ?thesis
      by (subst Parallel_vector_dot_loop.simps) (simp add: True rx ry IH dx dy)
  qed
qed

lemma local_dot_of_eq:
  "length local_x = length local_y \<Longrightarrow> local_n = int (length local_x) \<Longrightarrow>
   local_dot_of local_x local_y local_n = Inr (foldl (\<lambda>acc (xi, yi). acc + xi * yi) 0 (zip local_x local_y))"
  by (simp add: local_dot_of_def dot_loop_eq)

lemma emit_Nil [simp]: "emit [] r = r"
  by (simp add: emit_def)

lemma zip_silent:
  "length g \<le> length xs \<Longrightarrow> map (\<lambda>(e, r). emit e r) (zip (map (\<lambda>x. []) xs) g) = g"
proof (induction xs arbitrary: g)
  case Nil
  then show ?case by simp
next
  case (Cons x xs)
  then show ?case by (cases g) simp_all
qed

lemma Parallel_vector_dot_eq:
  fixes local_xys :: "('a::{zero,plus,times} list \<times> 'a list) list"
  assumes "list_all (\<lambda>(local_x, local_y). int (length local_x) = local_n \<and> int (length local_y) = local_n) local_xys"
  shows "Parallel_vector_dot local_xys local_n results =
     map (\<lambda>(my_rank, result).
            ([], Returned (if my_rank = 0
                           then Some (MPI_Reduce_SUM
                                  (map (\<lambda>(local_x, local_y).
                                          foldl (\<lambda>local_dot (xi, yi). local_dot + xi * yi) 0 (zip local_x local_y))
                                       local_xys))
                           else result)))
         (zip [0..<length local_xys] results)"
proof -
  let ?dot = "\<lambda>(local_x :: 'a list, local_y). foldl (\<lambda>local_dot (xi, yi). local_dot + xi * yi) 0 (zip local_x local_y)"
  have runs: "map (\<lambda>(local_x, local_y). run_of (local_dot_of local_x local_y local_n)) local_xys =
        map (\<lambda>xy. ([], Returned (?dot xy))) local_xys"
    using assms by (auto simp: list_all_iff local_dot_of_eq run_of_def)
  show ?thesis
    unfolding Parallel_vector_dot_def runs
    by (simp add: gbind_all_returned zip_silent)
qed

text \<open>
  Claim C3. For blocks \<open>a\<close> and \<open>b\<close> of equal length, \<^verbatim>\<open>local_dot\<close> is the sum of the products
  \<open>a[i] * b[i]\<close> accumulated from 0 in increasing index order, in the arithmetic of the
  element type whatever its laws. Over a group whose blocks all have \<open>local_n\<close> elements,
  \<^verbatim>\<open>Parallel_vector_dot\<close> stores the sum of the ranks' partial results in \<^verbatim>\<open>*result\<close> at rank 0
  and leaves \<^verbatim>\<open>*result\<close> as it was at every other rank; \<^verbatim>\<open>Display_dot_result\<close> reads and
  prints the value at rank 0 only.
\<close>

theorem Parallel_vector_dot_partial_and_reduce:
  fixes a b :: "'a::{zero,plus,times} list" and local_xys :: "('a list \<times> 'a list) list"
  assumes "length a = length b"
    and "list_all (\<lambda>(local_x, local_y). int (length local_x) = local_n \<and> int (length local_y) = local_n) local_xys"
  shows "local_dot_of a b (int (length a)) =
           Inr (foldl (\<lambda>local_dot (ai, bi). local_dot + ai * bi) 0 (zip a b))
       \<and> Parallel_vector_dot local_xys local_n results =
           map (\<lambda>(my_rank, result).
                  ([], Returned (if my_rank = 0
                                 then Some (MPI_Reduce_SUM
                                        (map (\<lambda>(local_x, local_y).
                                                foldl (\<lambda>local_dot (xi, yi). local_dot + xi * yi) 0
                                                  (zip local_x local_y))
                                             local_xys))
                                 else result)))
               (zip [0..<length local_xys] results)
       \<and> Display_dot_result my_rank result =
           (if my_rank = 0
            then (case result of
                    None \<Rightarrow> ([], Undefined ReadUninit)
                  | Some v \<Rightarrow> ([Stdout ''\<newline>Result of dot product: %lf\<newline>'' [ADouble v]], Returned ()))
            else ([], Returned ()))"
  using assms by (simp add: local_dot_of_eq Parallel_vector_dot_eq Display_dot_result_def)

theorem Parallel_vector_dot_partial_and_reduce_witness:
  "length [1, 2, 3 :: double] = length [4, 5, 6 :: double]
   \<and> list_all (\<lambda>(local_x, local_y). int (length local_x) = 2 \<and> int (length local_y) = 2)
        [([1, 2], [3, 4 :: double]), ([5, 6], [7, 8])]
   \<and> local_dot_of [1, 2, 3] [4, 5, 6 :: double] 3 = Inr 32
   \<and> Parallel_vector_dot [([1, 2], [3, 4 :: double]), ([5, 6], [7, 8])] 2 [None, None] =
       [([], Returned (Some 94)), ([], Returned None)]
   \<and> Display_dot_result 1 None = ([], Returned ())"
  using Parallel_vector_dot_partial_and_reduce
          [of "[1, 2, 3 :: double]" "[4, 5, 6]" 2 "[([1, 2], [3, 4]), ([5, 6], [7, 8])]" "[None, None]" 1 None]
  by (simp add: upt_conv_Cons)

lemma foldl_plus_sum_list:
  fixes v :: "'a::monoid_add"
  shows "foldl (+) v vs = v + sum_list vs"
  by (induction vs arbitrary: v) (simp_all add: add.assoc)

lemma MPI_Reduce_SUM_sum_list:
  fixes vs :: "'a::monoid_add list"
  shows "MPI_Reduce_SUM vs = sum_list vs"
  by (cases vs) (simp_all add: foldl_plus_sum_list)

subsection \<open>Scatter, gather and the generated vector\<close>

lemma concat_blocks:
  "concat (map (\<lambda>r. take l (drop (r * l) a)) [0..<p]) = take (p * l) a"
proof (induction p)
  case 0
  show ?case by simp
next
  case (Suc p)
  have "take (p * l + l) a = take (p * l) a @ take l (drop (p * l) a)"
    by (rule take_add)
  with Suc show ?case by (simp add: add.commute)
qed

lemma block_length:
  "p * l \<le> length a \<Longrightarrow> r < p \<Longrightarrow> length (take l (drop (r * l) a)) = l"
proof -
  assume a: "p * l \<le> length a" and r: "r < p"
  have "Suc r * l \<le> p * l" using r by (intro mult_le_mono1) simp
  then have "r * l + l \<le> length a" using a by simp
  then show ?thesis by simp
qed

lemma MPI_Scatter_Some:
  "0 \<le> local_n \<Longrightarrow> comm_sz * nat local_n \<le> length a \<Longrightarrow>
   MPI_Scatter a local_n comm_sz =
     Some (map (\<lambda>r. take (nat local_n) (drop (r * nat local_n) a)) [0..<comm_sz])"
  by (simp add: MPI_Scatter_def)

lemma MPI_Scatter_blocks:
  assumes "MPI_Scatter a local_n comm_sz = Some local_as"
  shows "length local_as = comm_sz \<and> 0 \<le> local_n
       \<and> list_all (\<lambda>local_a. int (length local_a) = local_n) local_as
       \<and> concat local_as = take (comm_sz * nat local_n) a"
proof -
  from assms have n0: "0 \<le> local_n" and le: "comm_sz * nat local_n \<le> length a"
    and eq: "local_as = map (\<lambda>r. take (nat local_n) (drop (r * nat local_n) a)) [0..<comm_sz]"
    by (auto simp: MPI_Scatter_def split: if_splits)
  have "list_all (\<lambda>local_a. int (length local_a) = local_n) local_as"
    unfolding eq list_all_iff using block_length[OF le] n0 by auto
  then show ?thesis using n0 eq by (simp add: concat_blocks)
qed

lemma MPI_Gather_blocks:
  assumes "list_all (\<lambda>local_b. int (length local_b) = local_n) local_bs"
    and "int (length local_bs) * local_n = n" and "0 \<le> local_n"
  shows "MPI_Gather local_bs local_n n = Some (concat local_bs)"
proof -
  have "map (take (nat local_n)) local_bs = local_bs"
    using assms(1) by (induction local_bs) auto
  moreover have "list_all (\<lambda>local_b. nat local_n \<le> length local_b) local_bs"
    using assms(1) by (auto simp: list_all_iff)
  ultimately show ?thesis using assms(2,3) by (simp add: MPI_Gather_def)
qed

lemma divides_blocks:
  assumes "0 \<le> n" "0 < comm_sz" "n mod int comm_sz = 0"
  shows "comm_sz * nat (n div int comm_sz) = nat n" and "int comm_sz * (n div int comm_sz) = n"
    and "0 \<le> n div int comm_sz"
proof -
  show i: "int comm_sz * (n div int comm_sz) = n" using assms(3) by auto
  show p: "0 \<le> n div int comm_sz" using assms by (simp add: pos_imp_zdiv_nonneg_iff)
  have "int (comm_sz * nat (n div int comm_sz)) = n" using i p by simp
  then show "comm_sz * nat (n div int comm_sz) = nat n" by linarith
qed

lemma scatter_gather:
  assumes "0 \<le> n" "0 < comm_sz" "n mod int comm_sz = 0" "length a = nat n"
  shows "\<exists>local_as. MPI_Scatter a (n div int comm_sz) comm_sz = Some local_as
           \<and> length local_as = comm_sz
           \<and> list_all (\<lambda>local_a. int (length local_a) = n div int comm_sz) local_as
           \<and> MPI_Gather local_as (n div int comm_sz) n = Some a
           \<and> (\<forall>r < comm_sz. \<forall>j < nat (n div int comm_sz).
                 a ! (r * nat (n div int comm_sz) + j) = local_as ! r ! j)"
proof -
  let ?l = "n div int comm_sz"
  let ?bs = "map (\<lambda>r. take (nat ?l) (drop (r * nat ?l) a)) [0..<comm_sz]"
  note d = divides_blocks[OF assms(1-3)]
  have s: "MPI_Scatter a ?l comm_sz = Some ?bs"
    using d assms(4) by (simp add: MPI_Scatter_Some)
  note b = MPI_Scatter_blocks[OF s]
  have c: "concat ?bs = a" using b d assms(4) by simp
  have g: "MPI_Gather ?bs ?l n = Some a"
    using MPI_Gather_blocks[of ?l ?bs n] b d c by simp
  have pos: "\<forall>r < comm_sz. \<forall>j < nat ?l. a ! (r * nat ?l + j) = ?bs ! r ! j"
  proof (intro allI impI)
    fix r j assume r: "r < comm_sz" and j: "j < nat ?l"
    have "Suc r * nat ?l \<le> comm_sz * nat ?l" using r by (intro mult_le_mono1) simp
    then have "r * nat ?l + j < length a" using j d(1) assms(4) by simp
    then show "a ! (r * nat ?l + j) = ?bs ! r ! j" using r j by simp
  qed
  show ?thesis using s b g pos by blast
qed

lemma Generate_loop_eq:
  "randmax \<noteq> 0 \<Longrightarrow> 0 \<le> i \<Longrightarrow> i \<le> n \<Longrightarrow> length a = nat n \<Longrightarrow>
   Generate_loop to_double rand randmax n i a =
     Inr (take (nat i) a @
          map (\<lambda>k. Some (to_double (int (rand k) smod randmax))) [nat i..<nat n])"
proof (induction to_double rand randmax n i a rule: Generate_loop.induct)
  case (1 to_double rand randmax n i a)
  show ?case
  proof (cases "i < n")
    case False
    with "1.prems" have "nat i = nat n" by simp
    with False "1.prems" show ?thesis
      by (subst Generate_loop.simps) simp
  next
    case True
    let ?k = "nat i"
    let ?v = "int (rand ?k) smod randmax"
    let ?a' = "a[?k := Some (to_double ?v)]"
    have k: "?k < length a" "?k < nat n" using True "1.prems" by simp_all
    have m: "c_mod (int (rand ?k)) randmax = Some ?v" using "1.prems" by (simp add: c_mod_def)
    have w: "wr a i (Some (to_double ?v)) = Some ?a'" using True "1.prems" by (simp add: wr_def)
    have n1: "nat (i + 1) = Suc ?k" using "1.prems" by simp
    have IH: "Generate_loop to_double rand randmax n (i + 1) ?a' =
        Inr (take (Suc ?k) ?a' @
             map (\<lambda>k. Some (to_double (int (rand k) smod randmax))) [Suc ?k..<nat n])"
      using "1.IH"[OF True m w] True "1.prems" n1 by simp
    have t: "take (Suc ?k) ?a' = take ?k a @ [Some (to_double ?v)]"
      using k by (simp add: take_Suc_conv_app_nth)
    have u: "[?k..<nat n] = ?k # [Suc ?k..<nat n]" using k by (simp add: upt_conv_Cons)
    show ?thesis
      by (subst Generate_loop.simps) (simp add: True m w IH t u)
  qed
qed

lemma Generate_loop_empty: "n \<le> 0 \<Longrightarrow> Generate_loop to_double rand randmax n 0 a = Inr a"
  by (subst Generate_loop.simps) simp

lemma Generate_loop_div0: "0 < n \<Longrightarrow> Generate_loop to_double rand 0 n 0 a = Inl DivByZero"
  by (subst Generate_loop.simps) (simp add: c_mod_def)

lemma Generate_loop_fill:
  assumes "randmax \<noteq> 0 \<or> n \<le> 0"
  shows "Generate_loop to_double rand randmax n 0 (replicate (nat n) None) =
     Inr (map Some (map (\<lambda>k. to_double (int (rand k) smod randmax)) [0..<nat n]))"
proof (cases "n \<le> 0")
  case True
  then show ?thesis by (simp add: Generate_loop_empty)
next
  case False
  with assms show ?thesis by (simp add: Generate_loop_eq comp_def)
qed

lemma those_map_Some_id: "those (map Some xs) = Some xs"
  by (induction xs) simp_all

lemma those_map_Some_comp: "those (map (Some \<circ> f) xs) = Some (map f xs)"
  by (induction xs) simp_all

lemma length_gbind_le: "length (gbind g f) \<le> length g"
  by (simp add: gbind_def split: option.split)

lemma length_each [simp]: "length (each comm_sz body) = comm_sz"
  by (simp add: each_def)

lemma gbind_silent:
  "length (f (map v [0..<comm_sz])) \<le> comm_sz \<Longrightarrow>
   gbind (each comm_sz (\<lambda>r. ([], Returned (v r)))) f = f (map v [0..<comm_sz])"
  using zip_silent[of "f (map v [0..<comm_sz])" "[0..<comm_sz]"]
  by (simp add: gbind_each_returned)

lemma root_flags_MIN:
  "0 < comm_sz \<Longrightarrow>
   MPI_Allreduce_MIN (map (\<lambda>my_rank. if my_rank = 0 \<and> \<not> p then 0 else 1) [0..<comm_sz]) =
     (if p then 1 else 0)"
proof -
  assume P: "0 < comm_sz"
  let ?f = "map (\<lambda>my_rank. if my_rank = 0 \<and> \<not> p then 0 else (1::int)) [0..<comm_sz]"
  have "set ?f \<subseteq> {0, 1}" "?f \<noteq> []" using P by auto
  from Min_flags[OF this] have "MPI_Allreduce_MIN ?f = (if 0 \<in> set ?f then 0 else 1)" .
  moreover have "0 \<in> set ?f \<longleftrightarrow> \<not> p" using P by auto
  ultimately show ?thesis by simp
qed

lemma Check_for_error_rank_1: "Check_for_error_rank 1 fname message = (\<lambda>my_rank. ([], Returned ()))"
  by (intro ext) (simp add: Check_for_error_rank_def)

lemma Check_for_error_rank_0:
  "Check_for_error_rank 0 fname message =
     (\<lambda>my_rank. (if my_rank = 0
                  then [Stderr ''Proc %d > In %s, %s\<newline>'' [AInt 0, AStr fname, AStr message]]
                  else [],
                  Exited (- 1)))"
  by (intro ext) (simp add: Check_for_error_rank_def)

lemma root_malloc_check:
  assumes "0 < comm_sz" and "length g \<le> comm_sz"
  shows "gbind (each comm_sz (\<lambda>my_rank. ([], Returned (if my_rank = 0 \<and> \<not> p then 0 else 1))))
           (\<lambda>local_oks. gbind (Check_for_error local_oks fname message) (\<lambda>_. g)) =
         (if p then g
          else each comm_sz (\<lambda>my_rank.
                 (if my_rank = 0
                  then [Stderr ''Proc %d > In %s, %s\<newline>'' [AInt 0, AStr fname, AStr message]]
                  else [],
                  Exited (- 1))))"
proof -
  let ?f = "map (\<lambda>my_rank. if my_rank = 0 \<and> \<not> p then 0 else (1::int)) [0..<comm_sz]"
  have chk: "Check_for_error ?f fname message =
      each comm_sz (Check_for_error_rank (if p then 1 else 0) fname message)"
    using assms(1) by (simp add: Check_for_error_def root_flags_MIN)
  have inner: "gbind (Check_for_error ?f fname message) (\<lambda>_. g) =
      (if p then g
       else each comm_sz (\<lambda>my_rank.
              (if my_rank = 0
               then [Stderr ''Proc %d > In %s, %s\<newline>'' [AInt 0, AStr fname, AStr message]]
               else [],
               Exited (- 1))))"
    using assms(2)
    by (simp add: chk Check_for_error_rank_1 Check_for_error_rank_0 gbind_silent gbind_each_exited)
  have len: "length (gbind (Check_for_error ?f fname message) (\<lambda>_. g)) \<le> comm_sz"
    using length_gbind_le[of "Check_for_error ?f fname message" "\<lambda>_. g"]
    by (simp add: Check_for_error_def)
  show ?thesis
    using gbind_silent[of "\<lambda>local_oks. gbind (Check_for_error local_oks fname message) (\<lambda>_. g)"
            "\<lambda>my_rank. if my_rank = 0 \<and> \<not> p then 0 else 1" comm_sz] len inner
    by simp
qed

lemma Generate_vector_eq:
  assumes "0 < comm_sz"
  shows "Generate_vector to_double local_n n vec_name comm_sz randmax rand a_p =
    (if \<not> a_p then
       each comm_sz (\<lambda>my_rank.
         (if my_rank = 0
          then [Stderr ''Proc %d > In %s, %s\<newline>''
                  [AInt 0, AStr ''Generate_vector'', AStr ''Can't allocate temporary vector'']]
          else [],
          Exited (- 1)))
     else if randmax = 0 \<and> 0 < n then
       each comm_sz (\<lambda>my_rank. ([], if my_rank = 0 then Undefined DivByZero else Blocked))
     else
       (case MPI_Scatter (map (\<lambda>k. to_double (int (rand k) smod randmax)) [0..<nat n])
               local_n comm_sz of
          None \<Rightarrow> each comm_sz (\<lambda>my_rank. ([], Undefined OutOfBounds))
        | Some local_as \<Rightarrow> map (\<lambda>local_a. ([], Returned local_a)) local_as))"
proof -
  let ?a = "map (\<lambda>k. to_double (int (rand k) smod randmax)) [0..<nat n]"
  let ?g = "case Generate_loop to_double rand randmax n 0 (replicate (nat n) None) of
       Inl u \<Rightarrow> each comm_sz (\<lambda>my_rank. ([], if my_rank = 0 then Undefined u else Blocked))
     | Inr cells \<Rightarrow>
         (case those cells of
            None \<Rightarrow> each comm_sz (\<lambda>my_rank. ([], Undefined ReadUninit))
          | Some a \<Rightarrow>
              (case MPI_Scatter a local_n comm_sz of
                 None \<Rightarrow> each comm_sz (\<lambda>my_rank. ([], Undefined OutOfBounds))
               | Some local_as \<Rightarrow> map (\<lambda>local_a. ([], Returned local_a)) local_as))"
  have g: "?g = (if randmax = 0 \<and> 0 < n
        then each comm_sz (\<lambda>my_rank. ([], if my_rank = 0 then Undefined DivByZero else Blocked))
        else (case MPI_Scatter ?a local_n comm_sz of
                None \<Rightarrow> each comm_sz (\<lambda>my_rank. ([], Undefined OutOfBounds))
              | Some local_as \<Rightarrow> map (\<lambda>local_a. ([], Returned local_a)) local_as))"
  proof (cases "randmax = 0 \<and> 0 < n")
    case True
    then show ?thesis by (simp add: Generate_loop_div0)
  next
    case False
    then have ok: "randmax \<noteq> 0 \<or> n \<le> 0" by auto
    from False have c: "(randmax = 0 \<and> 0 < n) = False" by simp
    show ?thesis
      unfolding c Generate_loop_fill[OF ok] by (simp add: those_map_Some_comp)
  qed
  let ?h = "if randmax = 0 \<and> 0 < n
        then each comm_sz (\<lambda>my_rank. ([], if my_rank = 0 then Undefined DivByZero else Blocked))
        else (case MPI_Scatter ?a local_n comm_sz of
                None \<Rightarrow> each comm_sz (\<lambda>my_rank. ([], Undefined OutOfBounds))
              | Some local_as \<Rightarrow> map (\<lambda>local_a. ([], Returned local_a)) local_as)"
  have len: "length ?h \<le> comm_sz"
    by (auto simp: MPI_Scatter_def split: option.split)
  have "Generate_vector to_double local_n n vec_name comm_sz randmax rand a_p =
      gbind (each comm_sz (\<lambda>my_rank. ([], Returned (if my_rank = 0 \<and> \<not> a_p then 0 else 1))))
        (\<lambda>local_oks.
           gbind (Check_for_error local_oks ''Generate_vector'' ''Can't allocate temporary vector'')
             (\<lambda>_. ?h))"
    unfolding Generate_vector_def g ..
  also note root_malloc_check[OF assms len]
  finally show ?thesis by simp
qed

lemma Generate_vector_returned:
  fixes to_double :: "int \<Rightarrow> 'd"
  assumes "0 < comm_sz" and "those (map returned (Generate_vector to_double local_n n vec_name comm_sz randmax rand a_p)) = Some local_as"
  shows "length local_as = comm_sz \<and> 0 \<le> local_n \<and> list_all (\<lambda>local_a. int (length local_a) = local_n) local_as"
proof -
  let ?a = "map (\<lambda>k. to_double (int (rand k) smod randmax)) [0..<nat n]"
  have no: "those (map returned (each comm_sz body)) \<noteq> Some vs"
    if "\<And>r. returned (body r) = None" for body :: "nat \<Rightarrow> ('d, 'd list) run" and vs
    using assms(1) that by (cases comm_sz) (simp_all add: each_def upt_conv_Cons del: upt_Suc)
  from assms(2) have 1: "a_p" and 2: "\<not> (randmax = 0 \<and> 0 < n)"
    unfolding Generate_vector_eq[OF assms(1)] using no by (auto split: if_splits)
  from assms(2) 1 2 obtain bs where s: "MPI_Scatter ?a local_n comm_sz = Some bs"
    unfolding Generate_vector_eq[OF assms(1)] using no by (auto split: option.splits)
  from assms(2) 1 2 s have "local_as = bs"
    unfolding Generate_vector_eq[OF assms(1)] by (simp add: comp_def those_map_Some_id)
  with MPI_Scatter_blocks[OF s] show ?thesis by simp
qed

lemma print_loop_ok:
  "0 \<le> i \<Longrightarrow> i \<le> hi \<Longrightarrow> hi \<le> int (length b) \<Longrightarrow>
   print_loop b i hi = (map (\<lambda>k. Stdout ''%lf,'' [ADouble (b ! k)]) [nat i..<nat hi], Returned ())"
proof (induction b i hi rule: print_loop.induct)
  case (1 b i hi)
  show ?case
  proof (cases "i < hi")
    case False
    with "1.prems" have "nat i = nat hi" by simp
    with False show ?thesis by (subst print_loop.simps) simp
  next
    case True
    have r: "rd b i = Some (b ! nat i)" using True "1.prems" by (simp add: rd_def)
    have n1: "nat (i + 1) = Suc (nat i)" using "1.prems" by simp
    have u: "[nat i..<nat hi] = nat i # [Suc (nat i)..<nat hi]"
      using True "1.prems" by (simp add: upt_conv_Cons)
    have IH: "print_loop b (i + 1) hi =
        (map (\<lambda>k. Stdout ''%lf,'' [ADouble (b ! k)]) [Suc (nat i)..<nat hi], Returned ())"
      using "1.IH"[OF True r] True "1.prems" n1 by simp
    show ?thesis
      by (subst print_loop.simps) (simp add: True r IH u emit_def)
  qed
qed

lemma print_loop_oob:
  "i < hi \<Longrightarrow> i < 0 \<or> int (length b) < hi \<Longrightarrow> snd (print_loop b i hi) = Undefined OutOfBounds"
proof (induction b i hi rule: print_loop.induct)
  case (1 b i hi)
  show ?case
  proof (cases "rd b i")
    case None
    with "1.prems" show ?thesis by (subst print_loop.simps) simp
  next
    case (Some v)
    then have in_range: "0 \<le> i" "i < int (length b)" by (auto simp: rd_def split: if_splits)
    with "1.prems" have "i + 1 < hi" by auto
    from "1.IH"[OF "1.prems"(1) Some this] "1.prems" in_range
    have "snd (print_loop b (i + 1) hi) = Undefined OutOfBounds" by auto
    with "1.prems" Some show ?thesis by (subst print_loop.simps) (simp add: emit_def)
  qed
qed

lemma PrintTopDown_vector_eq:
  assumes "0 < comm_sz"
  shows "PrintTopDown_vector local_bs local_n n title comm_sz b_p =
    (if \<not> b_p then
       each comm_sz (\<lambda>my_rank.
         (if my_rank = 0
          then [Stderr ''Proc %d > In %s, %s\<newline>''
                  [AInt 0, AStr ''PrintTopDown_vector'', AStr ''Can't allocate temporary vector'']]
          else [],
          Exited (- 1)))
     else
       (case MPI_Gather local_bs local_n n of
          None \<Rightarrow> each comm_sz (\<lambda>my_rank. ([], Undefined OutOfBounds))
        | Some b \<Rightarrow>
            each comm_sz (\<lambda>my_rank. if my_rank = 0 then print_top_down b n title else ([], Returned ()))))"
proof -
  let ?h = "case MPI_Gather local_bs local_n n of
          None \<Rightarrow> each comm_sz (\<lambda>my_rank. ([], Undefined OutOfBounds))
        | Some b \<Rightarrow>
            each comm_sz (\<lambda>my_rank. if my_rank = 0 then print_top_down b n title else ([], Returned ()))"
  have len: "length ?h \<le> comm_sz" by (simp split: option.split)
  show ?thesis
    unfolding PrintTopDown_vector_def root_malloc_check[OF assms len] by simp
qed

text \<open>
  Claim C2. For \<open>n \<ge> 0\<close> and \<open>comm_sz > 0\<close> ranks with \<open>n\<close> a multiple of \<open>comm_sz\<close>, and a
  global vector \<open>a\<close> of \<open>n\<close> elements: \<^verbatim>\<open>MPI_Scatter\<close> with count \<open>n / comm_sz\<close> delivers
  \<open>comm_sz\<close> blocks, \<^verbatim>\<open>MPI_Gather\<close> of these blocks gives back \<open>a\<close> element for element, and
  block \<open>r\<close> holds the global positions from \<open>r * (n / comm_sz)\<close> on. When \<open>a\<close> is what
  the generation loop wrote, the blocks are what \<^verbatim>\<open>Generate_vector\<close> returns at the ranks, and
  \<^verbatim>\<open>PrintTopDown_vector\<close> on these blocks prints its summary from \<open>a\<close> itself.
\<close>

theorem scatter_then_gather_round_trip:
  fixes a :: "'d list" and to_double :: "int \<Rightarrow> 'd"
  assumes "0 \<le> n" and "0 < comm_sz" and "n mod int comm_sz = 0" and "length a = nat n"
  shows "\<exists>local_as.
           MPI_Scatter a (n div int comm_sz) comm_sz = Some local_as
         \<and> length local_as = comm_sz
         \<and> MPI_Gather local_as (n div int comm_sz) n = Some a
         \<and> (\<forall>r < comm_sz. \<forall>j < nat (n div int comm_sz).
               a ! (r * nat (n div int comm_sz) + j) = local_as ! r ! j)
         \<and> (Generate_loop to_double rand randmax n 0 (replicate (nat n) None) = Inr (map Some a) \<longrightarrow>
              Generate_vector to_double (n div int comm_sz) n vec_name comm_sz randmax rand True =
                map (\<lambda>local_a. ([], Returned local_a)) local_as)
         \<and> PrintTopDown_vector local_as (n div int comm_sz) n title comm_sz True =
              each comm_sz (\<lambda>my_rank. if my_rank = 0 then print_top_down a n title else ([], Returned ()))"
proof -
  let ?l = "n div int comm_sz"
  from scatter_gather[OF assms] obtain local_as where
    s: "MPI_Scatter a ?l comm_sz = Some local_as" and len: "length local_as = comm_sz"
    and g: "MPI_Gather local_as ?l n = Some a"
    and pos: "\<forall>r < comm_sz. \<forall>j < nat ?l. a ! (r * nat ?l + j) = local_as ! r ! j"
    by blast
  have gen: "Generate_vector to_double ?l n vec_name comm_sz randmax rand True =
      map (\<lambda>local_a. ([], Returned local_a)) local_as"
    if loop: "Generate_loop to_double rand randmax n 0 (replicate (nat n) None) = Inr (map Some a)"
  proof -
    have ok: "\<not> (randmax = 0 \<and> 0 < n)"
      using loop by (auto simp: Generate_loop_div0)
    then have "randmax \<noteq> 0 \<or> n \<le> 0" by auto
    from Generate_loop_fill[OF this, where to_double = to_double and rand = rand] loop
    have "map Some (map (\<lambda>k. to_double (int (rand k) smod randmax)) [0..<nat n]) = map Some a"
      by simp
    then have "map (\<lambda>k. to_double (int (rand k) smod randmax)) [0..<nat n] = a"
      by (simp only: inj_map_eq_map[OF inj_Some])
    with ok s show ?thesis
      unfolding Generate_vector_eq[OF assms(2)] by auto
  qed
  have prt: "PrintTopDown_vector local_as ?l n title comm_sz True =
      each comm_sz (\<lambda>my_rank. if my_rank = 0 then print_top_down a n title else ([], Returned ()))"
    unfolding PrintTopDown_vector_eq[OF assms(2)] using g by simp
  show ?thesis using s len g pos gen prt by blast
qed

theorem scatter_then_gather_round_trip_witness:
  "(0::int) \<le> 4 \<and> 0 < (2::nat) \<and> (4::int) mod int 2 = 0 \<and> length [3, 2, 1, 0 :: double] = nat 4
   \<and> Generate_loop real_of_int (\<lambda>k. 3 * k + 3) 4 4 0 (replicate (nat 4) None) = Inr (map Some [3, 2, 1, 0])
   \<and> Generate_vector real_of_int (4 div int 2) 4 ''x'' 2 4 (\<lambda>k. 3 * k + 3) True =
        [([], Returned [3, 2]), ([], Returned [1, 0])]
   \<and> MPI_Scatter [3, 2, 1, 0 :: double] (4 div int 2) 2 = Some [[3, 2], [1, 0]]
   \<and> MPI_Gather [[3, 2], [1, 0 :: double]] (4 div int 2) 4 = Some [3, 2, 1, 0]"
proof -
  have loop: "Generate_loop real_of_int (\<lambda>k. 3 * k + 3) 4 4 0 (replicate (nat 4) None) = Inr (map Some [3, 2, 1, 0])"
    by (simp add: Generate_loop.simps c_mod_def wr_def signed_modulo_int_def eval_nat_numeral)
  have sc: "MPI_Scatter [3, 2, 1, 0 :: double] (4 div int 2) 2 = Some [[3, 2], [1, 0]]"
    by (simp add: MPI_Scatter_def upt_conv_Cons)
  show ?thesis
    using scatter_then_gather_round_trip
            [where n = 4 and comm_sz = 2 and a = "[3, 2, 1, 0 :: double]" and to_double = real_of_int
               and rand = "\<lambda>k. 3 * k + 3" and randmax = 4 and vec_name = "''x''"
               and title = "''Vector x''"]
          loop sc
    by auto
qed

lemma foldl_dot_sum_list:
  fixes acc :: "'a::{monoid_add,times}"
  shows "foldl (\<lambda>local_dot (xi, yi). local_dot + xi * yi) acc zs = acc + sum_list (map (\<lambda>(xi, yi). xi * yi) zs)"
  by (induction zs arbitrary: acc) (auto simp: add.assoc)

lemma sum_list_blocks:
  fixes xss :: "'a::monoid_add list list"
  shows "sum_list (map sum_list xss) = sum_list (concat xss)"
  by (induction xss) simp_all

lemma block_dots_sum:
  fixes x y :: "'a::{monoid_add,times} list"
  shows "sum_list (map (\<lambda>(local_x, local_y).
                     foldl (\<lambda>local_dot (xi, yi). local_dot + xi * yi) 0 (zip local_x local_y))
            (zip (map (\<lambda>r. take l (drop (r * l) x)) [0..<p])
                 (map (\<lambda>r. take l (drop (r * l) y)) [0..<p]))) =
         foldl (\<lambda>local_dot (xi, yi). local_dot + xi * yi) 0 (zip (take (p * l) x) (take (p * l) y))"
proof -
  let ?g = "\<lambda>(xi :: 'a, yi). xi * yi"
  let ?z = "zip x y"
  have "map (\<lambda>(local_x, local_y). foldl (\<lambda>local_dot (xi, yi). local_dot + xi * yi) 0 (zip local_x local_y))
            (zip (map (\<lambda>r. take l (drop (r * l) x)) [0..<p])
                 (map (\<lambda>r. take l (drop (r * l) y)) [0..<p])) =
        map (\<lambda>r. sum_list (map ?g (take l (drop (r * l) ?z)))) [0..<p]"
    by (simp add: zip_map_map zip_same_conv_map foldl_dot_sum_list take_zip drop_zip)
  also have "sum_list \<dots> = sum_list (map ?g (concat (map (\<lambda>r. take l (drop (r * l) ?z)) [0..<p])))"
    using sum_list_blocks[of "map (\<lambda>r. map ?g (take l (drop (r * l) ?z))) [0..<p]"]
    by (simp add: map_concat comp_def)
  also have "\<dots> = sum_list (map ?g (take (p * l) ?z))"
    by (simp only: concat_blocks)
  finally show ?thesis
    by (simp add: foldl_dot_sum_list take_zip)
qed

lemma root_only:
  "0 < comm_sz \<Longrightarrow>
   map (\<lambda>(my_rank, result). ([], Returned (if my_rank = 0 then Some d else result)))
       (zip [0..<comm_sz] (replicate comm_sz None)) =
     ([], Returned (Some d)) # replicate (comm_sz - 1) ([], Returned None)"
proof -
  assume P: "0 < comm_sz"
  have z: "zip [0..<comm_sz] (replicate comm_sz None) = map (\<lambda>r. (r, None)) [0..<comm_sz]"
    by (simp add: zip_replicate2)
  have t: "map (\<lambda>r. ([], Returned (if r = 0 then Some d else None))) [1..<comm_sz] =
      map (\<lambda>r. ([], Returned None)) [1..<comm_sz]"
    by simp
  have "map (\<lambda>(my_rank, result). ([], Returned (if my_rank = 0 then Some d else result)))
       (zip [0..<comm_sz] (replicate comm_sz None)) =
     map (\<lambda>r. ([], Returned (if r = 0 then Some d else None))) [0..<comm_sz]"
    unfolding z by (simp add: comp_def)
  also have "\<dots> = ([], Returned (Some d)) # map (\<lambda>r. ([], Returned (if r = 0 then Some d else None))) [1..<comm_sz]"
    using P by (simp add: upt_conv_Cons[of 0] del: upt_Suc)
  also have "\<dots> = ([], Returned (Some d)) # replicate (comm_sz - 1) ([], Returned None)"
    unfolding t by (simp add: map_replicate_const)
  finally show ?thesis .
qed

text \<open>
  Claim C1. For global vectors \<open>x\<close> and \<open>y\<close> of \<open>n\<close> reals and \<open>comm_sz > 0\<close> ranks with \<open>n\<close> a
  multiple of \<open>comm_sz\<close>: the dot product that \<^verbatim>\<open>Parallel_vector_dot\<close> stores at rank 0, from
  the blocks \<^verbatim>\<open>MPI_Scatter\<close> delivers, is the value \<open>d\<close> that a group of one rank computes
  over the whole vectors.
\<close>

theorem dot_product_distributes:
  fixes x y :: "double list"
  assumes "0 < comm_sz" and "0 \<le> n" and "n mod int comm_sz = 0"
    and "length x = nat n" and "length y = nat n"
  shows "\<exists>local_xs local_ys d.
           MPI_Scatter x (n div int comm_sz) comm_sz = Some local_xs
         \<and> MPI_Scatter y (n div int comm_sz) comm_sz = Some local_ys
         \<and> Parallel_vector_dot (zip local_xs local_ys) (n div int comm_sz) (replicate comm_sz None) =
             ([], Returned (Some d)) # replicate (comm_sz - 1) ([], Returned None)
         \<and> Parallel_vector_dot [(x, y)] n [None] = [([], Returned (Some d))]"
proof -
  let ?l = "n div int comm_sz"
  let ?bx = "map (\<lambda>r. take (nat ?l) (drop (r * nat ?l) x)) [0..<comm_sz]"
  let ?by = "map (\<lambda>r. take (nat ?l) (drop (r * nat ?l) y)) [0..<comm_sz]"
  let ?dot = "\<lambda>(local_x :: double list, local_y). foldl (\<lambda>local_dot (xi, yi). local_dot + xi * yi) 0 (zip local_x local_y)"
  note d = divides_blocks[OF assms(2,1,3)]
  have sx: "MPI_Scatter x ?l comm_sz = Some ?bx" and sy: "MPI_Scatter y ?l comm_sz = Some ?by"
    using d assms by (simp_all add: MPI_Scatter_Some)
  have lens: "list_all (\<lambda>(local_x, local_y). int (length local_x) = ?l \<and> int (length local_y) = ?l) (zip ?bx ?by)"
  proof -
    have "\<forall>local_x \<in> set ?bx. int (length local_x) = ?l" "\<forall>local_y \<in> set ?by. int (length local_y) = ?l"
      using MPI_Scatter_blocks[OF sx] MPI_Scatter_blocks[OF sy] unfolding list_all_iff by blast+
    then show ?thesis
      unfolding list_all_iff by (blast dest: set_zip_leftD set_zip_rightD)
  qed
  have total: "MPI_Reduce_SUM (map ?dot (zip ?bx ?by)) = ?dot (x, y)"
    using block_dots_sum[where l = "nat ?l" and x = x and y = y and p = comm_sz] d assms
    by (simp add: MPI_Reduce_SUM_sum_list)
  have dist: "Parallel_vector_dot (zip ?bx ?by) ?l (replicate comm_sz None) =
      ([], Returned (Some (?dot (x, y)))) # replicate (comm_sz - 1) ([], Returned None)"
    unfolding Parallel_vector_dot_eq[OF lens] total
    using root_only[OF assms(1), of "?dot (x, y)"] by simp
  have one: "list_all (\<lambda>(local_x, local_y). int (length local_x) = n \<and> int (length local_y) = n) [(x, y)]"
    using assms by simp
  have single: "Parallel_vector_dot [(x, y)] n [None] = [([], Returned (Some (?dot (x, y))))]"
    unfolding Parallel_vector_dot_eq[OF one] by simp
  show ?thesis using sx sy dist single by blast
qed

theorem dot_product_distributes_witness:
  "0 < (2::nat) \<and> (0::int) \<le> 4 \<and> (4::int) mod int 2 = 0
   \<and> length [1, 2, 3, 4 :: double] = nat 4 \<and> length [5, 6, 7, 8 :: double] = nat 4
   \<and> MPI_Scatter [1, 2, 3, 4 :: double] (4 div int 2) 2 = Some [[1, 2], [3, 4]]
   \<and> MPI_Scatter [5, 6, 7, 8 :: double] (4 div int 2) 2 = Some [[5, 6], [7, 8]]
   \<and> (Parallel_vector_dot (zip [[1, 2], [3, 4]] [[5, 6], [7, 8 :: double]]) (4 div int 2) (replicate 2 None)
        :: (double, double option) group) =
       ([], Returned (Some 70)) # replicate (2 - 1) ([], Returned None)
   \<and> (Parallel_vector_dot [([1, 2, 3, 4], [5, 6, 7, 8 :: double])] 4 [None]
        :: (double, double option) group) = [([], Returned (Some 70))]"
proof -
  have one: "(Parallel_vector_dot [([1, 2, 3, 4], [5, 6, 7, 8 :: double])] 4 [None]
      :: (double, double option) group) = [([], Returned (Some 70))]"
    by (simp add: Parallel_vector_dot_eq)
  have sc: "MPI_Scatter [1, 2, 3, 4 :: double] (4 div int 2) 2 = Some [[1, 2], [3, 4]]"
    "MPI_Scatter [5, 6, 7, 8 :: double] (4 div int 2) 2 = Some [[5, 6], [7, 8]]"
    by (simp_all add: MPI_Scatter_def upt_conv_Cons)
  show ?thesis
    using dot_product_distributes [where ?'a = double and ?'b = double, of 2 4 "[1, 2, 3, 4]" "[5, 6, 7, 8]"] one sc
    by auto
qed

subsection \<open>The random bound and the printed summary\<close>

lemma Read_RandMax_eq:
  assumes "0 < comm_sz"
  shows "Read_RandMax randmax comm_sz =
    each comm_sz (\<lambda>my_rank.
      if randmax < 0
      then ((if my_rank = 0
             then [Stdout ''What's the max number for random?\<newline>'' [],
                   Stderr ''Proc %d > In %s, %s\<newline>''
                     [AInt 0, AStr ''Read_RandMax'', AStr ''randmax should be >= 100,000'']]
             else []),
            Exited (- 1))
      else ((if my_rank = 0 then [Stdout ''What's the max number for random?\<newline>'' []] else []),
            Returned randmax))"
proof (cases "randmax < 0")
  case True
  show ?thesis
    using True assms
    apply (simp only: Read_RandMax_def gbind_each_returned if_True Check_for_error_const
             Check_for_error_rank_0 gbind_each_exited zip_map_each)
    apply (simp add: each_def emit_def)
    done
next
  case False
  show ?thesis
    using False assms
    apply (simp only: Read_RandMax_def gbind_each_returned if_False Check_for_error_const
             Check_for_error_rank_1 gbind_each_each zip_map_each)
    apply (simp add: each_def emit_def)
    done
qed

lemma print_last_eq:
  "print_last b i =
     (if 0 \<le> i \<and> i < int (length b)
      then ([Stdout ''%lf]\<newline>'' [ADouble (b ! nat i)]], Returned ())
      else ([], Undefined OutOfBounds))"
  by (simp add: print_last_def rd_def)

lemma bind_run_returned: "bind_run (es, Returned v) f = emit es (f v)"
  by (simp add: bind_run_def)

lemma bind_run_undefined: "snd m = Undefined u \<Longrightarrow> snd (bind_run m f) = Undefined u"
  by (cases m) (simp add: bind_run_def)

lemma snd_emit [simp]: "snd (emit es r) = snd r"
  by (simp add: emit_def)

lemma fst_emit [simp]: "fst (emit es r) = es @ fst r"
  by (simp add: emit_def)

lemma print_top_down_ok:
  assumes "10 \<le> n" and "n \<le> int (length b)"
  shows "print_top_down b n title =
    ([Stdout ''%s\<newline>'' [AStr title], Stdout ''0 - 10: ['' []]
     @ map (\<lambda>k. Stdout ''%lf,'' [ADouble (b ! k)]) [0..<9]
     @ [Stdout ''%lf]\<newline>'' [ADouble (b ! 9)],
        Stdout ''%d - %d: ['' [AInt (n - 10), AInt n]]
     @ map (\<lambda>k. Stdout ''%lf,'' [ADouble (b ! k)]) [nat n - 10..<nat n - 1]
     @ [Stdout ''%lf]\<newline>'' [ADouble (b ! (nat n - 1))]],
     Returned ())"
proof -
  have 1: "print_loop b 0 9 = (map (\<lambda>k. Stdout ''%lf,'' [ADouble (b ! k)]) [0..<9], Returned ())"
    using assms print_loop_ok[of 0 9 b] by simp
  have 2: "print_loop b (n - 10) (n - 1) =
      (map (\<lambda>k. Stdout ''%lf,'' [ADouble (b ! k)]) [nat n - 10..<nat n - 1], Returned ())"
    using assms print_loop_ok[of "n - 10" "n - 1" b] by (simp add: nat_diff_distrib)
  have 3: "nat (n - 1) = nat n - 1" using assms by simp
  show ?thesis
    unfolding print_top_down_def 1 2 bind_run_returned print_last_eq
    using assms by (simp add: emit_def 3 bind_run_returned)
qed

lemma print_top_down_oob:
  assumes "\<not> (10 \<le> n \<and> n \<le> int (length b))"
  shows "snd (print_top_down b n title) = Undefined OutOfBounds"
proof (cases "9 \<le> int (length b)")
  case False
  then have "snd (print_loop b 0 9) = Undefined OutOfBounds"
    by (intro print_loop_oob) auto
  then show ?thesis
    by (simp add: print_top_down_def bind_run_undefined)
next
  case True
  have 1: "print_loop b 0 9 = (map (\<lambda>k. Stdout ''%lf,'' [ADouble (b ! k)]) [0..<9], Returned ())"
    using True print_loop_ok[of 0 9 b] by simp
  show ?thesis
  proof (cases "9 < int (length b)")
    case False
    then show ?thesis
      unfolding print_top_down_def 1 bind_run_returned print_last_eq
      by (simp add: bind_run_def)
  next
    case nine: True
    have "n - 10 < n - 1" by simp
    moreover have "n - 10 < 0 \<or> int (length b) < n - 1 \<or> int (length b) = n - 1"
      using assms by auto
    ultimately have "snd (bind_run (print_loop b (n - 10) (n - 1)) (\<lambda>_. print_last b (n - 1))) = Undefined OutOfBounds"
    proof (elim disjE)
      assume "n - 10 < n - 1" "int (length b) = n - 1"
      then have "print_loop b (n - 10) (n - 1) =
          (map (\<lambda>k. Stdout ''%lf,'' [ADouble (b ! k)]) [nat (n - 10)..<nat (n - 1)], Returned ())"
        using nine by (intro print_loop_ok) auto
      moreover have "print_last b (n - 1) = ([], Undefined OutOfBounds)"
        using \<open>int (length b) = n - 1\<close> by (simp add: print_last_eq)
      ultimately show ?thesis by (simp add: bind_run_returned)
    qed (auto intro!: bind_run_undefined print_loop_oob)
    then show ?thesis
      unfolding print_top_down_def 1 bind_run_returned print_last_eq
      using nine by (simp add: bind_run_returned)
  qed
qed

lemma print_top_down_outcome:
  "snd (print_top_down b n title) =
     (if 10 \<le> n \<and> n \<le> int (length b) then Returned () else Undefined OutOfBounds)"
  using print_top_down_ok[of n b title] print_top_down_oob[of n b title] by auto

lemma generated_in_range:
  assumes "0 < randmax"
  shows "Generate_loop to_double rand randmax n 0 (replicate (nat n) None) =
           Inr (map (\<lambda>k. Some (to_double (int (rand k) mod randmax))) [0..<nat n])
       \<and> 0 \<le> int (rand k) mod randmax \<and> int (rand k) mod randmax < randmax"
  using assms Generate_loop_fill[where randmax = randmax and n = n and rand = rand and to_double = to_double]
  by (simp add: smod_nonneg comp_def)

text \<open>
  Claim C7, at the input where the code departs from it. \<^verbatim>\<open>Read_RandMax\<close> accepts the bound 0
  at every rank, and \<^verbatim>\<open>Generate_vector\<close> with \<open>randmax = 0\<close> and a vector of one element per
  rank then computes \<^verbatim>\<open>rand() % 0\<close> at rank 0: a division by zero, while the other ranks
  wait in \<^verbatim>\<open>MPI_Scatter\<close>.
\<close>

theorem Generate_vector_randmax_zero:
  "Read_RandMax 0 2 =
     [([Stdout ''What's the max number for random?\<newline>'' []], Returned 0), ([], Returned 0)]
   \<and> Generate_vector to_double 1 2 ''x'' 2 0 (\<lambda>k. 7) True = [([], Undefined DivByZero), ([], Blocked)]
   \<and> Generate_vector to_double 1 1 ''x'' 1 0 (\<lambda>k. 7) True = [([], Undefined DivByZero)]"
  by (simp add: Read_RandMax_eq Generate_vector_eq each_def upt_conv_Cons)

text \<open>
  Claim C8, at the inputs where the code departs from it. \<^verbatim>\<open>Read_n\<close> accepts the orders 5 and
  0 in a group of one rank. With \<open>n = 5\<close>, \<^verbatim>\<open>PrintTopDown_vector\<close> prints \<^verbatim>\<open>b[0]\<close> to \<^verbatim>\<open>b[4]\<close>
  and then reads \<^verbatim>\<open>b[5]\<close>, past the end of the five cells; with \<open>n = 0\<close> its first read,
  \<^verbatim>\<open>b[0]\<close>, is already outside the empty buffer.
\<close>

theorem PrintTopDown_vector_short:
  "map snd (Read_n 5 1) = [Returned (5, 5)]
   \<and> PrintTopDown_vector [[1, 2, 3, 4, 5 :: double]] 5 5 ''Vector x'' 1 True =
       [([Stdout ''%s\<newline>'' [AStr ''Vector x''], Stdout ''0 - 10: ['' [],
          Stdout ''%lf,'' [ADouble 1], Stdout ''%lf,'' [ADouble 2], Stdout ''%lf,'' [ADouble 3],
          Stdout ''%lf,'' [ADouble 4], Stdout ''%lf,'' [ADouble 5]],
         Undefined OutOfBounds)]
   \<and> map snd (Read_n 0 1) = [Returned (0, 0)]
   \<and> PrintTopDown_vector ([[]] :: double list list) 0 0 ''Vector x'' 1 True =
       [([Stdout ''%s\<newline>'' [AStr ''Vector x''], Stdout ''0 - 10: ['' []], Undefined OutOfBounds)]"
  by (simp add: Read_n_eq PrintTopDown_vector_eq MPI_Gather_def each_def
        print_top_down_def print_loop.simps rd_def bind_run_def emit_def)

subsection \<open>Runs that end alike\<close>

lemma gbind_Nil [simp]: "gbind [] f = []"
  by (simp add: gbind_def)

lemma alike_length: "alike R g g' \<Longrightarrow> length g = length g'"
  by (simp add: alike_def list_all2_lengthD)

lemma alike_those:
  "alike R g g' \<Longrightarrow> rel_option (list_all2 R) (those (map returned g)) (those (map returned g'))"
  unfolding alike_def
proof (induction g g' rule: list_all2_induct)
  case Nil
  show ?case by simp
next
  case (Cons r g r' g')
  obtain es o1 where r: "r = (es, o1)" by (cases r)
  obtain es' o2 where r': "r' = (es', o2)" by (cases r')
  from Cons(1) r r' have "rel_outcome R o1 o2" by simp
  then show ?case
    using Cons.IH r r'
    by (cases o1; cases o2) (auto simp: option.rel_map elim: option.rel_cases split: option.splits)
qed

lemma alike_halt:
  fixes g :: "('e, 'a) group" and g' :: "('e, 'b) group" and Q :: "'c \<Rightarrow> 'd \<Rightarrow> bool"
  shows "alike R g g' \<Longrightarrow> alike Q (map halt g) (map halt g')"
  unfolding alike_def list_all2_map1 list_all2_map2
proof (erule list_all2_mono)
  fix r :: "('e, 'a) run" and r' :: "('e, 'b) run"
  assume "rel_outcome R (snd r) (snd r')"
  then show "rel_outcome Q (snd (halt r :: ('e, 'c) run)) (snd (halt r' :: ('e, 'd) run))"
    by (cases r; cases r'; cases "snd r"; cases "snd r'") auto
qed

lemma alike_emit:
  assumes "length es = length es'" and "alike Q h h'"
  shows "alike Q (map (\<lambda>(e, r). emit e r) (zip es h)) (map (\<lambda>(e, r). emit e r) (zip es' h'))"
  using assms
  by (auto simp: alike_def list_all2_conv_all_nth emit_def)

lemma alike_gbind:
  assumes "alike R g g'" and "\<And>vs vs'. list_all2 R vs vs' \<Longrightarrow> alike Q (f vs) (f' vs')"
  shows "alike Q (gbind g f) (gbind g' f')"
proof -
  from alike_those[OF assms(1)]
  show ?thesis
  proof (cases rule: option.rel_cases)
    case None
    then show ?thesis by (simp add: gbind_def alike_halt[OF assms(1)])
  next
    case (Some vs vs')
    then show ?thesis
      using alike_emit[OF _ assms(2)[OF Some(3)], of "map fst g" "map fst g'"] alike_length[OF assms(1)]
      by (simp add: gbind_def)
  qed
qed

lemma alike_eq: "alike (=) g g' \<Longrightarrow> map snd g = map snd g'"
  by (auto simp: alike_def outcome.rel_eq list_all2_conv_all_nth intro!: nth_equalityI)

lemma alike_refl: "alike (=) g g"
  by (simp add: alike_def outcome.rel_eq list_all2_refl)

lemma alike_gbind_common:
  assumes "alike (=) g g'" and "\<And>v. alike Q (f v) (f' v)"
  shows "alike Q (gbind_common g f) (gbind_common g' f')"
  unfolding gbind_common_def
proof (rule alike_gbind[OF assms(1)])
  fix vs vs' :: "'a list"
  assume "list_all2 (=) vs vs'"
  then have "vs = vs'" by (simp add: list.rel_eq)
  then show "alike Q (case common vs of None \<Rightarrow> map (\<lambda>_. ([], Blocked)) vs | Some v \<Rightarrow> f v)
                     (case common vs' of None \<Rightarrow> map (\<lambda>_. ([], Blocked)) vs' | Some v \<Rightarrow> f' v)"
    using assms(2) by (auto simp: alike_def list_all2_conv_all_nth split: option.split)
qed

lemma alike_each:
  "(\<And>r. r < comm_sz \<Longrightarrow> rel_outcome R (snd (body r)) (snd (body' r))) \<Longrightarrow>
   alike R (each comm_sz body) (each comm_sz body')"
  by (simp add: alike_def each_def list_all2_conv_all_nth)

lemma alike_Generate_vector:
  "alike (both_of_length local_n)
     (Generate_vector to_double local_n n vec_name comm_sz randmax rand a_p)
     (Generate_vector to_double local_n n vec_name comm_sz randmax rand a_p)"
proof (cases "comm_sz = 0")
  case True
  then show ?thesis by (simp add: Generate_vector_def each_def alike_def)
next
  case False
  then have P: "0 < comm_sz" by simp
  show ?thesis
  proof (cases "MPI_Scatter (map (\<lambda>k. to_double (int (rand k) smod randmax)) [0..<nat n]) local_n comm_sz")
    case None
    then show ?thesis
      unfolding Generate_vector_eq[OF P] by (auto intro!: alike_each)
  next
    case (Some local_as)
    from MPI_Scatter_blocks[OF Some]
    have "alike (both_of_length local_n) (map (\<lambda>local_a. ([], Returned local_a)) local_as)
            (map (\<lambda>local_a. ([], Returned local_a)) local_as)"
      by (auto simp: alike_def list_all2_conv_all_nth both_of_length_def list_all_length)
    with Some show ?thesis
      unfolding Generate_vector_eq[OF P] by (auto intro!: alike_each)
  qed
qed

lemma MPI_Gather_both:
  assumes "list_all2 (both_of_length local_n) local_bs local_bs'"
  shows "MPI_Gather local_bs local_n n =
           (if 0 \<le> local_n \<and> int (length local_bs) * local_n = n then Some (concat local_bs) else None)"
    and "MPI_Gather local_bs' local_n n =
           (if 0 \<le> local_n \<and> int (length local_bs) * local_n = n then Some (concat local_bs') else None)"
    and "length (concat local_bs) = length (concat local_bs')"
proof -
  have l: "length local_bs' = length local_bs" using assms by (simp add: list_all2_lengthD)
  have a: "list_all (\<lambda>local_b. int (length local_b) = local_n) local_bs"
    and b: "list_all (\<lambda>local_b. int (length local_b) = local_n) local_bs'"
    using assms by (auto simp: list_all_length list_all2_conv_all_nth both_of_length_def)
  show "MPI_Gather local_bs local_n n =
           (if 0 \<le> local_n \<and> int (length local_bs) * local_n = n then Some (concat local_bs) else None)"
    using MPI_Gather_blocks[OF a, of n] by (auto simp: MPI_Gather_def)
  show "MPI_Gather local_bs' local_n n =
           (if 0 \<le> local_n \<and> int (length local_bs) * local_n = n then Some (concat local_bs') else None)"
    using MPI_Gather_blocks[OF b, of n] l by (auto simp: MPI_Gather_def)
  have "map length local_bs = map length local_bs'"
    using assms by (auto simp: list_all2_conv_all_nth both_of_length_def intro!: nth_equalityI)
  then show "length (concat local_bs) = length (concat local_bs')"
    by (simp add: length_concat)
qed

lemma alike_PrintTopDown_vector:
  assumes "list_all2 (both_of_length local_n) local_bs local_bs'"
  shows "alike (=) (PrintTopDown_vector local_bs local_n n title comm_sz b_p)
                   (PrintTopDown_vector local_bs' local_n n title comm_sz b_p)"
proof (cases "comm_sz = 0")
  case True
  then show ?thesis by (simp add: PrintTopDown_vector_def each_def alike_def)
next
  case False
  then have P: "0 < comm_sz" by simp
  note g = MPI_Gather_both(1,2)[OF assms] and l = MPI_Gather_both(3)[OF assms]
  show ?thesis
    unfolding PrintTopDown_vector_eq[OF P] g
    using l by (auto intro!: alike_each simp: outcome.rel_eq print_top_down_outcome)
qed

lemma alike_Parallel_vector_scalar:
  assumes "list_all2 (both_of_length local_n) local_xs local_xs'"
  shows "alike (both_of_length local_n)
     (map (\<lambda>(my_rank, local_x). run_of (Parallel_vector_scalar to_double scalar local_x local_n my_rank))
          (zip [0..<comm_sz] local_xs))
     (map (\<lambda>(my_rank, local_x). run_of (Parallel_vector_scalar to_double scalar' local_x local_n my_rank))
          (zip [0..<comm_sz] local_xs'))"
  using assms
  by (auto simp: alike_def list_all2_conv_all_nth both_of_length_def run_of_def
        Parallel_vector_scalar_eq)

lemma alike_Parallel_vector_dot:
  fixes local_xs local_xs' local_ys local_ys' :: "'d::{zero,plus,times} list list"
  assumes "list_all2 (both_of_length local_n) local_xs local_xs'"
    and "list_all2 (both_of_length local_n) local_ys local_ys'"
  shows "alike (\<lambda>result result'. result = None \<longleftrightarrow> result' = None)
     (Parallel_vector_dot (zip local_xs local_ys) local_n (replicate comm_sz None))
     (Parallel_vector_dot (zip local_xs' local_ys') local_n (replicate comm_sz None))"
proof -
  have a: "list_all (\<lambda>(local_x, local_y). int (length local_x) = local_n \<and> int (length local_y) = local_n)
             (zip local_xs local_ys)"
    and b: "list_all (\<lambda>(local_x, local_y). int (length local_x) = local_n \<and> int (length local_y) = local_n)
             (zip local_xs' local_ys')"
    using assms by (auto simp: list_all_length list_all2_conv_all_nth both_of_length_def)
  have l: "length local_xs' = length local_xs" "length local_ys' = length local_ys"
    using assms by (simp_all add: list_all2_lengthD)
  show ?thesis
    unfolding Parallel_vector_dot_eq[OF a] Parallel_vector_dot_eq[OF b]
    by (auto simp: alike_def list_all2_conv_all_nth l)
qed

lemma alike_Display_dot_result:
  assumes "list_all2 (\<lambda>result result'. result = None \<longleftrightarrow> result' = None) results results'"
  shows "alike (=)
     (map (\<lambda>(my_rank, result). Display_dot_result my_rank result) (zip [0..<comm_sz] results))
     (map (\<lambda>(my_rank, result). Display_dot_result my_rank result) (zip [0..<comm_sz] results'))"
proof -
  have len: "length results = length results'" using assms by (rule list_all2_lengthD)
  have "rel_outcome (=) (snd (Display_dot_result i (results ! i)))
          (snd (Display_dot_result i (results' ! i)))" if "i < length results" for i
  proof -
    from assms that have "results ! i = None \<longleftrightarrow> results' ! i = None"
      by (simp add: list_all2_conv_all_nth)
    then show ?thesis
      by (cases "results ! i"; cases "results' ! i") (simp_all add: Display_dot_result_def outcome.rel_eq)
  qed
  then show ?thesis using len by (simp add: alike_def list_all2_conv_all_nth)
qed

lemma common_replicate: "0 < comm_sz \<Longrightarrow> common (map (\<lambda>my_rank. v) [0..<comm_sz]) = Some v"
  by (simp add: common_def upt_conv_Cons list_all_iff del: upt_Suc split: list.split)

lemma alike_Read_Scalar:
  assumes "alike Q (f scalar) (f' scalar')"
  shows "alike Q (gbind_common (Read_Scalar scalar comm_sz) f) (gbind_common (Read_Scalar scalar' comm_sz) f')"
proof (cases "comm_sz = 0")
  case True
  then show ?thesis by (simp add: Read_Scalar_def each_def gbind_common_def alike_def)
next
  case False
  then have P: "0 < comm_sz" by simp
  show ?thesis
    unfolding gbind_common_def Read_Scalar_def gbind_each_returned common_replicate[OF P] option.case
    by (rule alike_emit) (simp_all add: assms)
qed

lemma alike_gbind_common_pair:
  assumes "alike (=) g g'" and "\<And>a b. alike Q (f a b) (f' a b)"
  shows "alike Q (gbind_common g (\<lambda>(a, b). f a b)) (gbind_common g' (\<lambda>(a, b). f' a b))"
  using assms(1)
proof (rule alike_gbind_common)
  fix v
  show "alike Q (case v of (a, b) \<Rightarrow> f a b) (case v of (a, b) \<Rightarrow> f' a b)"
    using assms(2) by (cases v) simp
qed

lemma main_alike:
  "alike (=) (main to_double (w\<lparr>world_scalar := scalar\<rparr>))
             (main to_double (w\<lparr>world_scalar := scalar'\<rparr>))"
  apply (cases w)
  apply (simp only: main_def Let_def world.simps)
  apply (rule alike_gbind_common_pair[OF alike_refl])
  apply (rule alike_gbind_common[OF alike_refl])
  apply (rule alike_gbind[OF alike_refl])
  apply (rule alike_gbind[OF alike_Generate_vector])
  apply (rule alike_gbind)
   apply (erule alike_PrintTopDown_vector)
  apply (rule alike_gbind[OF alike_Generate_vector])
  apply (rule alike_gbind)
   apply (erule alike_PrintTopDown_vector)
  apply (rule alike_Read_Scalar)
  apply (rule alike_gbind)
   apply (erule alike_Parallel_vector_scalar)
  apply (rule alike_gbind)
   apply (erule alike_PrintTopDown_vector)
  apply (rule alike_gbind)
   apply (erule alike_Parallel_vector_scalar)
  apply (rule alike_gbind)
   apply (erule alike_PrintTopDown_vector)
  apply (rule alike_gbind)
   apply (erule (1) alike_Parallel_vector_dot)
  apply (rule alike_gbind)
   apply (erule alike_Display_dot_result)
  apply (rule alike_refl)
  done

text \<open>
  Claim C10. \<^verbatim>\<open>Read_Scalar\<close> returns at every rank with the integer typed at rank 0, whatever
  it is, after the prompt at rank 0 and nothing else: no rank leaves, and nothing goes to
  the error channel. How each rank of the whole run ends (returning from \<^verbatim>\<open>main\<close>, leaving
  through \<^verbatim>\<open>exit\<close>, or otherwise) is the same for any two values of the scalar.
\<close>

theorem Read_Scalar_unvalidated:
  "Read_Scalar scalar comm_sz =
     each comm_sz (\<lambda>my_rank.
       (if my_rank = 0 then [Stdout ''\<newline>What's the number for the scalar?\<newline>'' []] else [],
        Returned scalar))
   \<and> map snd (Read_Scalar scalar comm_sz) = replicate comm_sz (Returned scalar)
   \<and> map snd (main to_double (w\<lparr>world_scalar := scalar\<rparr>)) =
       map snd (main to_double (w\<lparr>world_scalar := scalar'\<rparr>))"
  by (simp add: Read_Scalar_def each_def comp_def map_replicate_const alike_eq[OF main_alike])

subsection \<open>The serial program and the distributed program on one rank\<close>

lemma Vector_sum_loop_eq:
  "0 \<le> i \<Longrightarrow> i \<le> n \<Longrightarrow> n \<le> int (length x) \<Longrightarrow> n \<le> int (length y) \<Longrightarrow> length z = nat n \<Longrightarrow>
   Vector_sum_loop x y z n i =
     Inr (take (nat i) z @ map (\<lambda>k. Some (x ! k + y ! k)) [nat i..<nat n])"
proof (induction x y z n i rule: Vector_sum_loop.induct)
  case (1 x y z n i)
  show ?case
  proof (cases "i < n")
    case False
    with "1.prems" have "nat i = nat n" by simp
    with False "1.prems" show ?thesis
      by (subst Vector_sum_loop.simps) simp
  next
    case True
    let ?k = "nat i"
    let ?z' = "z[?k := Some (x ! ?k + y ! ?k)]"
    have k: "?k < length z" "?k < nat n" using True "1.prems" by simp_all
    have rx: "rd x i = Some (x ! ?k)" and ry: "rd y i = Some (y ! ?k)"
      using True "1.prems" by (simp_all add: rd_def)
    have w: "wr z i (Some (x ! ?k + y ! ?k)) = Some ?z'" using True "1.prems" by (simp add: wr_def)
    have n1: "nat (i + 1) = Suc ?k" using "1.prems" by simp
    have IH: "Vector_sum_loop x y ?z' n (i + 1) =
        Inr (take (Suc ?k) ?z' @ map (\<lambda>k. Some (x ! k + y ! k)) [Suc ?k..<nat n])"
      using "1.IH"[OF True rx ry w] True "1.prems" n1 by simp
    have t: "take (Suc ?k) ?z' = take ?k z @ [Some (x ! ?k + y ! ?k)]"
      using k by (simp add: take_Suc_conv_app_nth)
    have u: "[?k..<nat n] = ?k # [Suc ?k..<nat n]" using k by (simp add: upt_conv_Cons)
    show ?thesis
      by (subst Vector_sum_loop.simps) (simp add: True rx ry w IH t u)
  qed
qed

lemma Vector_sum_eq:
  fixes x y :: "'d::plus list"
  assumes "0 \<le> n" and "length x = nat n" and "length y = nat n"
  shows "(Vector_sum (map Some x) (map Some y) (replicate (nat n) None) n :: ('d, 'd option list) run) =
    ([], Returned (map Some (map (\<lambda>(xi, yi). xi + yi) (zip x y))))"
proof -
  have l: "Vector_sum_loop x y (replicate (nat n) None) n 0 =
      Inr (map (\<lambda>k. Some (x ! k + y ! k)) [0..<nat n])"
    using assms Vector_sum_loop_eq[of 0 n x y "replicate (nat n) None"] by simp
  have m: "map (\<lambda>k. Some (x ! k + y ! k)) [0..<nat n] =
      map Some (map (\<lambda>(xi, yi). xi + yi) (zip x y))"
    using assms by (intro nth_equalityI) simp_all
  show ?thesis
    unfolding Vector_sum_def those_map_Some_id prod.case option.case l run_of_def sum.case m ..
qed

lemma generated_length [simp]:
  "length (map (\<lambda>k. to_double (int (rand k) mod randmax)) [0..<nat n]) = nat n"
  by simp

text \<open>The serial program up to the call of \<^verbatim>\<open>Vector_sum\<close>, and from it to the end.\<close>

lemma serial_main_steps:
  fixes to_double :: "int \<Rightarrow> 'd::plus"
  assumes "10 \<le> n" and "0 < randmax"
  shows "serial_main to_double
           \<lparr>serial_n = n, serial_randmax = randmax, serial_rand = rand,
            serial_mallocs = (True, True, True), serial_msec = msec\<rparr> =
    (let x = map (\<lambda>k. to_double (int (rand k) mod randmax)) [0..<nat n];
         y = map (\<lambda>k. to_double (int (rand (nat n + k)) mod randmax)) [0..<nat n]
     in bind_run
          ([Stdout ''What's the order of the vectors?\<newline>'' [],
            Stdout ''What's the max number for random?\<newline>'' [],
            Stdout ''Vector %s generated ...\<newline>'' [AStr ''x''],
            Stdout ''Vector %s generated ...\<newline>'' [AStr ''y'']]
           @ fst (print_top_down x n ''Vector x'')
           @ fst (print_top_down y n ''Vector y''),
           Returned ())
          (\<lambda>_. bind_run (Vector_sum (map Some x) (map Some y) (replicate (nat n) None) n)
                  (\<lambda>z. ([Stdout ''\<newline>Took %d.%d s to run\<newline>''
                             [AInt (msec div 1000), AInt (msec mod 1000)]],
                         Returned 0))))"
proof -
  let ?x = "map (\<lambda>k. to_double (int (rand k) mod randmax)) [0..<nat n]"
  let ?y = "map (\<lambda>k. to_double (int (rand (nat n + k)) mod randmax)) [0..<nat n]"
  have gx: "Generate_loop to_double rand randmax n 0 (replicate (nat n) None) = Inr (map Some ?x)"
    using assms Generate_loop_fill[of randmax n to_double rand] by (simp add: smod_nonneg)
  have gy: "Generate_loop to_double (\<lambda>k. rand (nat n + k)) randmax n 0 (replicate (nat n) None) =
      Inr (map Some ?y)"
    using assms Generate_loop_fill[of randmax n to_double "\<lambda>k. rand (nat n + k)"]
    by (simp add: smod_nonneg)
  have px: "print_top_down ?x n title = (fst (print_top_down ?x n title), Returned ())" for title
    using print_top_down_outcome[of ?x n title] assms by (simp add: prod_eq_iff)
  have py: "print_top_down ?y n title = (fst (print_top_down ?y n title), Returned ())" for title
    using print_top_down_outcome[of ?y n title] assms by (simp add: prod_eq_iff)
  have sx: "serial_PrintTopDown_vector (map Some ?x) n title = (fst (print_top_down ?x n title), Returned ())"
    for title
    unfolding serial_PrintTopDown_vector_def those_map_Some_id using px[of title] by simp
  have sy: "serial_PrintTopDown_vector (map Some ?y) n title = (fst (print_top_down ?y n title), Returned ())"
    for title
    unfolding serial_PrintTopDown_vector_def those_map_Some_id using py[of title] by simp
  have rn: "(serial_Read_n n :: ('d, int) run) =
      ([Stdout ''What's the order of the vectors?\<newline>'' []], Returned n)"
    using assms by (simp add: serial_Read_n_def emit_def)
  show ?thesis
    unfolding serial_main_def Let_def serial_world.simps rn bind_run_returned
      serial_Read_RandMax_def serial_Allocate_vectors_def serial_Generate_vector_def run_of_def
    apply (simp only: emit_def fst_conv snd_conv bind_run_returned sum.case prod.case if_False
             simp_thms gx gy sx sy append_Nil append_Cons append_assoc)
    done
qed

lemma serial_main_run:
  fixes to_double :: "int \<Rightarrow> 'd::plus"
  assumes "10 \<le> n" and "0 < randmax"
  shows "serial_main to_double
           \<lparr>serial_n = n, serial_randmax = randmax, serial_rand = rand,
            serial_mallocs = (True, True, True), serial_msec = msec\<rparr> =
    (let x = map (\<lambda>k. to_double (int (rand k) mod randmax)) [0..<nat n];
         y = map (\<lambda>k. to_double (int (rand (nat n + k)) mod randmax)) [0..<nat n]
     in ([Stdout ''What's the order of the vectors?\<newline>'' [],
          Stdout ''What's the max number for random?\<newline>'' [],
          Stdout ''Vector %s generated ...\<newline>'' [AStr ''x''],
          Stdout ''Vector %s generated ...\<newline>'' [AStr ''y'']]
         @ fst (print_top_down x n ''Vector x'')
         @ fst (print_top_down y n ''Vector y'')
         @ [Stdout ''\<newline>Took %d.%d s to run\<newline>'' [AInt (msec div 1000), AInt (msec mod 1000)]],
         Returned 0))"
proof -
  let ?x = "map (\<lambda>k. to_double (int (rand k) mod randmax)) [0..<nat n]"
  let ?y = "map (\<lambda>k. to_double (int (rand (nat n + k)) mod randmax)) [0..<nat n]"
  have n0: "0 \<le> n" using assms by simp
  have vs: "(Vector_sum (map Some ?x) (map Some ?y) (replicate (nat n) None) n :: ('d, 'd option list) run) =
      ([], Returned (map Some (map (\<lambda>(xi, yi). xi + yi) (zip ?x ?y))))"
    by (rule Vector_sum_eq[OF n0]) simp_all
  show ?thesis
    unfolding serial_main_steps[OF assms] Let_def vs bind_run_returned
    by (simp add: emit_def)
qed

lemma gbind_one:
  "gbind [(es, Returned v)] f = map (\<lambda>(e, r). emit e r) (zip [es] (f [v]))"
  by (simp add: gbind_def)

lemma gbind_common_one:
  "gbind_common [(es, Returned v)] f = map (\<lambda>(e, r). emit e r) (zip [es] (f v))"
  by (simp add: gbind_common_def gbind_def common_def)

lemma emit_one: "map (\<lambda>(e, r). emit e r) (zip [es] [(es', ending)]) = [(es @ es', ending)]"
  by (simp add: emit_def)

lemma Read_n_one:
  "0 \<le> n \<Longrightarrow> Read_n n 1 = [([Stdout ''What's the order of the vectors?\<newline>'' []], Returned (n, n))]"
  by (simp add: Read_n_eq each_def)

lemma Read_RandMax_one:
  "0 \<le> randmax \<Longrightarrow>
   Read_RandMax randmax 1 = [([Stdout ''What's the max number for random?\<newline>'' []], Returned randmax)]"
  by (simp add: Read_RandMax_eq each_def)

lemma Allocate_vectors_one:
  "Allocate_vectors local_n (\<lambda>my_rank. (True, True, True)) 1 = [([], Returned ())]"
  by (simp add: Allocate_vectors_def each_def gbind_one Check_for_error_def
        MPI_Allreduce_MIN_def Check_for_error_rank_def)

lemma Generate_vector_one:
  assumes "0 \<le> n" and "0 < randmax"
  shows "Generate_vector to_double n n vec_name 1 randmax rand True =
           [([], Returned (map (\<lambda>k. to_double (int (rand k) mod randmax)) [0..<nat n]))]"
  using assms by (simp add: Generate_vector_eq MPI_Scatter_def smod_nonneg)

lemma PrintTopDown_vector_one:
  assumes "10 \<le> n" and "length b = nat n"
  shows "PrintTopDown_vector [b] n n title 1 True = [(fst (print_top_down b n title), Returned ())]"
  using assms print_top_down_outcome[of b n title]
  by (simp add: PrintTopDown_vector_eq MPI_Gather_def each_def prod_eq_iff)

lemma Read_Scalar_one:
  "Read_Scalar scalar 1 = [([Stdout ''\<newline>What's the number for the scalar?\<newline>'' []], Returned scalar)]"
  by (simp add: Read_Scalar_def each_def)

lemma Parallel_vector_scalar_one:
  assumes "0 \<le> n" and "length b = nat n"
  shows "map (\<lambda>(my_rank, local_x). run_of (Parallel_vector_scalar to_double scalar local_x n my_rank))
           (zip [0..<1] [b]) = [([], Returned (map (\<lambda>v. v * to_double scalar) b))]"
  using assms by (simp add: Parallel_vector_scalar_eq run_of_def)

lemma Parallel_vector_dot_one:
  fixes x y :: "'d::{zero,plus,times} list"
  assumes "0 \<le> n" and "length x = nat n" and "length y = nat n"
  shows "Parallel_vector_dot (zip [x] [y]) n (replicate 1 None) =
           [([], Returned (Some (foldl (\<lambda>local_dot (xi, yi). local_dot + xi * yi) 0 (zip x y))))]"
  using assms by (simp add: Parallel_vector_dot_eq)

lemma Display_dot_result_one:
  "map (\<lambda>(my_rank, result). Display_dot_result my_rank result) (zip [0..<1] [Some d]) =
     [([Stdout ''\<newline>Result of dot product: %lf\<newline>'' [ADouble d]], Returned ())]"
  by (simp add: Display_dot_result_def)

lemma main_one_rank:
  fixes to_double :: "int \<Rightarrow> 'd::{zero,plus,times}"
  assumes "10 \<le> n" and "0 < randmax"
  shows "main to_double
           \<lparr>world_comm_sz = 1, world_n = n, world_randmax = randmax, world_scalar = scalar,
            world_rand = rand, world_mallocs = (\<lambda>my_rank. (True, True, True)),
            world_tmp_malloc = (\<lambda>k. True), world_elapsed = elapsed\<rparr> =
    (let x = map (\<lambda>k. to_double (int (rand k) mod randmax)) [0..<nat n];
         y = map (\<lambda>k. to_double (int (rand (nat n + k)) mod randmax)) [0..<nat n];
         x' = map (\<lambda>v. v * to_double scalar) x;
         y' = map (\<lambda>v. v * to_double scalar) y
     in [([Stdout ''What's the order of the vectors?\<newline>'' [],
           Stdout ''What's the max number for random?\<newline>'' []]
          @ fst (print_top_down x n ''Vector x'')
          @ fst (print_top_down y n ''Vector y'')
          @ [Stdout ''\<newline>What's the number for the scalar?\<newline>'' []]
          @ fst (print_top_down x' n ''Vector x by scalar'')
          @ fst (print_top_down y' n ''Vector y by scalar'')
          @ [Stdout ''\<newline>Result of dot product: %lf\<newline>''
               [ADouble (foldl (\<lambda>local_dot (xi, yi). local_dot + xi * yi) 0 (zip x' y'))],
             Stdout ''\<newline>Took %.3lf s to run\<newline>'' [ADouble elapsed]],
          Returned 0)])"
proof -
  let ?x = "map (\<lambda>k. to_double (int (rand k) mod randmax)) [0..<nat n]"
  let ?y = "map (\<lambda>k. to_double (int (rand (nat n + k)) mod randmax)) [0..<nat n]"
  let ?x' = "map (\<lambda>v. v * to_double scalar) ?x"
  let ?y' = "map (\<lambda>v. v * to_double scalar) ?y"
  have n0: "0 \<le> n" "0 \<le> randmax" using assms by simp_all
  have rn: "(Read_n n 1 :: ('d, int \<times> int) group) =
      [([Stdout ''What's the order of the vectors?\<newline>'' []], Returned (n, n))]"
    by (rule Read_n_one[OF n0(1)])
  have rr: "(Read_RandMax randmax 1 :: ('d, int) group) =
      [([Stdout ''What's the max number for random?\<newline>'' []], Returned randmax)]"
    by (rule Read_RandMax_one[OF n0(2)])
  have al: "(Allocate_vectors n (\<lambda>my_rank. (True, True, True)) 1 :: ('d, unit) group) = [([], Returned ())]"
    by (rule Allocate_vectors_one)
  have gx: "Generate_vector to_double n n ''x'' 1 randmax rand True = [([], Returned ?x)]"
    by (rule Generate_vector_one[OF n0(1) assms(2)])
  have gy: "Generate_vector to_double n n ''y'' 1 randmax (\<lambda>k. rand (nat n + k)) True = [([], Returned ?y)]"
    by (rule Generate_vector_one[OF n0(1) assms(2)])
  have px: "PrintTopDown_vector [?x] n n ''Vector x'' 1 True = [(fst (print_top_down ?x n ''Vector x''), Returned ())]"
    and py: "PrintTopDown_vector [?y] n n ''Vector y'' 1 True = [(fst (print_top_down ?y n ''Vector y''), Returned ())]"
    and px': "PrintTopDown_vector [?x'] n n ''Vector x by scalar'' 1 True =
               [(fst (print_top_down ?x' n ''Vector x by scalar''), Returned ())]"
    and py': "PrintTopDown_vector [?y'] n n ''Vector y by scalar'' 1 True =
               [(fst (print_top_down ?y' n ''Vector y by scalar''), Returned ())]"
    by (rule PrintTopDown_vector_one[OF assms(1)]; simp)+
  have rs: "(Read_Scalar scalar 1 :: ('d, int) group) =
      [([Stdout ''\<newline>What's the number for the scalar?\<newline>'' []], Returned scalar)]"
    by (rule Read_Scalar_one)
  have sx: "map (\<lambda>(my_rank, local_x). run_of (Parallel_vector_scalar to_double scalar local_x n my_rank))
              (zip [0..<1] [?x]) = ([([], Returned ?x')] :: ('d, 'd list) group)"
    and sy: "map (\<lambda>(my_rank, local_y). run_of (Parallel_vector_scalar to_double scalar local_y n my_rank))
              (zip [0..<1] [?y]) = ([([], Returned ?y')] :: ('d, 'd list) group)"
    by (rule Parallel_vector_scalar_one[OF n0(1)]; simp)+
  have dt: "(Parallel_vector_dot (zip [?x'] [?y']) n (replicate 1 None) :: ('d, 'd option) group) =
      [([], Returned (Some (foldl (\<lambda>local_dot (xi, yi). local_dot + xi * yi) 0 (zip ?x' ?y'))))]"
    using n0(1) by (intro Parallel_vector_dot_one) simp_all
  have dd: "map (\<lambda>(my_rank, result). Display_dot_result my_rank result) (zip [0..<1] [Some d]) =
     [([Stdout ''\<newline>Result of dot product: %lf\<newline>'' [ADouble d]], Returned ())]" for d :: 'd
    by (rule Display_dot_result_one)
  have fin: "each 1 body = [body 0]" for body :: "nat \<Rightarrow> ('d, int) run"
    by (simp add: each_def)
  show ?thesis
    unfolding main_def Let_def world.simps rn gbind_common_one prod.case rr al
      gbind_one gx px gy py rs sx px' sy py' dt dd fin emit_one
    by simp
qed

text \<open>
  Claim C9, as amended. For \<open>n \<ge> 10\<close> and \<open>randmax > 0\<close>, with every allocation
  succeeding and the same values of \<^verbatim>\<open>rand()\<close>, the serial program and the distributed
  program on one rank generate the same \<open>x\<close> and \<open>y\<close> and print the same summaries of
  \<open>Vector x\<close> and \<open>Vector y\<close>. The serial program prints a line \<open>Vector %s generated ...\<close>
  after each generation, before both summaries; it then calls \<^verbatim>\<open>Vector_sum\<close> on \<open>x\<close>, \<open>y\<close> and
  the block \<open>z\<close> of \<open>n\<close> cells, which returns with cell \<open>i\<close> of \<open>z\<close> holding \<open>x[i] + y[i]\<close>
  and prints nothing, and ends with its own timing line; it reads no scalar, scales nothing
  and reports no dot product. The distributed program goes on, after the two summaries, to
  the prompt for the scalar, the summaries of the scaled vectors and the dot product. The
  sums, the products and the dot product are those of the element type, whatever its laws:
  the rounded ones of binary64 where the elements are binary64.
\<close>

theorem serial_and_one_rank_runs:
  fixes to_double :: "int \<Rightarrow> 'd::{zero,plus,times}"
  assumes "10 \<le> n" and "0 < randmax"
  shows
   "(let x = map (\<lambda>k. to_double (int (rand k) mod randmax)) [0..<nat n];
         y = map (\<lambda>k. to_double (int (rand (nat n + k)) mod randmax)) [0..<nat n];
         x' = map (\<lambda>v. v * to_double scalar) x;
         y' = map (\<lambda>v. v * to_double scalar) y;
         before_sum =
           [Stdout ''What's the order of the vectors?\<newline>'' [],
            Stdout ''What's the max number for random?\<newline>'' [],
            Stdout ''Vector %s generated ...\<newline>'' [AStr ''x''],
            Stdout ''Vector %s generated ...\<newline>'' [AStr ''y'']]
           @ fst (print_top_down x n ''Vector x'')
           @ fst (print_top_down y n ''Vector y'');
         timing = [Stdout ''\<newline>Took %d.%d s to run\<newline>'' [AInt (msec div 1000), AInt (msec mod 1000)]]
     in serial_main to_double
          \<lparr>serial_n = n, serial_randmax = randmax, serial_rand = rand,
           serial_mallocs = (True, True, True), serial_msec = msec\<rparr> =
          bind_run (before_sum, Returned ())
            (\<lambda>_. bind_run (Vector_sum (map Some x) (map Some y) (replicate (nat n) None) n)
                    (\<lambda>z. (timing, Returned 0)))
      \<and> Vector_sum (map Some x) (map Some y) (replicate (nat n) None) n =
          ([], Returned (map Some (map (\<lambda>(xi, yi). xi + yi) (zip x y))))
      \<and> serial_main to_double
          \<lparr>serial_n = n, serial_randmax = randmax, serial_rand = rand,
           serial_mallocs = (True, True, True), serial_msec = msec\<rparr> =
          (before_sum @ timing, Returned 0)
      \<and> main to_double
          \<lparr>world_comm_sz = 1, world_n = n, world_randmax = randmax, world_scalar = scalar,
           world_rand = rand, world_mallocs = (\<lambda>my_rank. (True, True, True)),
           world_tmp_malloc = (\<lambda>k. True), world_elapsed = elapsed\<rparr> =
          [([Stdout ''What's the order of the vectors?\<newline>'' [],
             Stdout ''What's the max number for random?\<newline>'' []]
            @ fst (print_top_down x n ''Vector x'')
            @ fst (print_top_down y n ''Vector y'')
            @ [Stdout ''\<newline>What's the number for the scalar?\<newline>'' []]
            @ fst (print_top_down x' n ''Vector x by scalar'')
            @ fst (print_top_down y' n ''Vector y by scalar'')
            @ [Stdout ''\<newline>Result of dot product: %lf\<newline>''
                 [ADouble (foldl (\<lambda>local_dot (xi, yi). local_dot + xi * yi) 0 (zip x' y'))],
               Stdout ''\<newline>Took %.3lf s to run\<newline>'' [ADouble elapsed]],
            Returned 0)])"
proof -
  let ?x = "map (\<lambda>k. to_double (int (rand k) mod randmax)) [0..<nat n]"
  let ?y = "map (\<lambda>k. to_double (int (rand (nat n + k)) mod randmax)) [0..<nat n]"
  have n0: "0 \<le> n" using assms by simp
  have vs: "(Vector_sum (map Some ?x) (map Some ?y) (replicate (nat n) None) n :: ('d, 'd option list) run) =
      ([], Returned (map Some (map (\<lambda>(xi, yi). xi + yi) (zip ?x ?y))))"
    by (rule Vector_sum_eq[OF n0]) simp_all
  note steps = serial_main_steps[OF assms, where to_double = to_double and rand = rand and msec = msec]
  note run = serial_main_run[OF assms, where to_double = to_double and rand = rand and msec = msec]
  note one = main_one_rank[OF assms, where to_double = to_double and rand = rand and scalar = scalar
      and elapsed = elapsed]
  show ?thesis
    unfolding Let_def
    apply (intro conjI)
       apply (rule steps[unfolded Let_def])
      apply (rule vs)
     apply (simp only: run[unfolded Let_def] append_assoc)
    apply (rule one[unfolded Let_def])
    done
qed

theorem serial_and_one_rank_runs_witness:
  "(10::int) \<le> 10 \<and> (0::int) < 10
   \<and> (Vector_sum (map Some [0, 1, 2, 3, 4, 5, 6, 7, 8, 9]) (map Some [0, 1, 2, 3, 4, 5, 6, 7, 8, 9])
         (replicate (nat 10) None) 10 :: (double, double option list) run) =
       ([], Returned (map Some [0, 2, 4, 6, 8, 10, 12, 14, 16, 18]))
   \<and> snd (serial_main real_of_int
                     \<lparr>serial_n = 10, serial_randmax = 10, serial_rand = (\<lambda>k. k),
                      serial_mallocs = (True, True, True), serial_msec = 1234\<rparr> :: (double, int) run) = Returned 0
   \<and> map snd (main real_of_int
                         \<lparr>world_comm_sz = 1, world_n = 10, world_randmax = 10, world_scalar = 2,
                          world_rand = (\<lambda>k. k), world_mallocs = (\<lambda>my_rank. (True, True, True)),
                          world_tmp_malloc = (\<lambda>k. True), world_elapsed = 1\<rparr> :: (double, int) group) = [Returned 0]"
  using serial_and_one_rank_runs [where n = 10 and randmax = 10 and rand = "\<lambda>k. k" and scalar = 2
      and msec = 1234 and elapsed = "1 :: double" and to_double = real_of_int]
  by (simp add: Let_def upt_conv_Cons bind_run_returned)

text \<open>
  Claim C9, as stated, fails on \<open>n = 10\<close>, \<open>randmax = 10\<close>, \<open>rand()\<close> counting from 0 and the
  scalar 2, where every value is a small integer and no arithmetic rounds: the distributed
  program on one rank prompts for the scalar and reports the dot product 1140, the serial
  program prints neither line; the serial program prints \<open>Vector %s generated ...\<close>, the
  distributed one does not.
\<close>

theorem serial_is_not_one_rank_run:
  "Stdout ''\<newline>What's the number for the scalar?\<newline>'' []
     \<in> set (fst (hd (main real_of_int
                         \<lparr>world_comm_sz = 1, world_n = 10, world_randmax = 10, world_scalar = 2,
                          world_rand = (\<lambda>k. k), world_mallocs = (\<lambda>my_rank. (True, True, True)),
                          world_tmp_malloc = (\<lambda>k. True), world_elapsed = 1\<rparr> :: (double, int) group)))
   \<and> Stdout ''\<newline>What's the number for the scalar?\<newline>'' []
     \<notin> set (fst (serial_main real_of_int
                     \<lparr>serial_n = 10, serial_randmax = 10, serial_rand = (\<lambda>k. k),
                      serial_mallocs = (True, True, True), serial_msec = 1234\<rparr> :: (double, int) run))
   \<and> Stdout ''\<newline>Result of dot product: %lf\<newline>'' [ADouble 1140]
     \<in> set (fst (hd (main real_of_int
                         \<lparr>world_comm_sz = 1, world_n = 10, world_randmax = 10, world_scalar = 2,
                          world_rand = (\<lambda>k. k), world_mallocs = (\<lambda>my_rank. (True, True, True)),
                          world_tmp_malloc = (\<lambda>k. True), world_elapsed = 1\<rparr> :: (double, int) group)))
   \<and> Stdout ''\<newline>Result of dot product: %lf\<newline>'' [ADouble 1140]
     \<notin> set (fst (serial_main real_of_int
                     \<lparr>serial_n = 10, serial_randmax = 10, serial_rand = (\<lambda>k. k),
                      serial_mallocs = (True, True, True), serial_msec = 1234\<rparr> :: (double, int) run))
   \<and> Stdout ''Vector %s generated ...\<newline>'' [AStr ''x'']
     \<in> set (fst (serial_main real_of_int
                     \<lparr>serial_n = 10, serial_randmax = 10, serial_rand = (\<lambda>k. k),
                      serial_mallocs = (True, True, True), serial_msec = 1234\<rparr> :: (double, int) run))
   \<and> Stdout ''Vector %s generated ...\<newline>'' [AStr ''x'']
     \<notin> set (fst (hd (main real_of_int
                         \<lparr>world_comm_sz = 1, world_n = 10, world_randmax = 10, world_scalar = 2,
                          world_rand = (\<lambda>k. k), world_mallocs = (\<lambda>my_rank. (True, True, True)),
                          world_tmp_malloc = (\<lambda>k. True), world_elapsed = 1\<rparr> :: (double, int) group)))"
proof -
  have s: "(10::int) \<le> 10" "(0::int) < 10" by simp_all
  show ?thesis
    unfolding serial_main_run[OF s] main_one_rank[OF s] Let_def
    by (simp add: print_top_down_ok upt_conv_Cons)
qed

end
